theory Spec2Isabelle
  imports Complex_Main "HOL-Library.Sublist"
begin

section \<open>Stored records and key-value storage\<close>

text \<open>
  The server keeps its records in four key-value namespaces (\<open>useStorage("answer")\<close>,
  \<open>"frameState"\<close>, \<open>"runState"\<close>, \<open>"archivedRun"\<close>). A namespace is a partial map from
  keys to records: \<open>getItem\<close> is application (\<open>None\<close> is JavaScript's \<open>null\<close>),
  \<open>removeItem\<close> is \<open>m(k := None)\<close>, \<open>setItem\<close> is \<open>m(k \<mapsto> v)\<close>. What \<open>getKeys\<close>
  returned is passed to the sweeps as a list of keys.

  Every stored record carries \<open>expiryTs: number | null\<close>; a timestamp is a number of
  milliseconds, an \<open>int\<close>.
\<close>

type_synonym 'v storage = "string \<rightharpoonup> 'v"

record Expiring =
  expiryTs :: "int option"

type_synonym StoredFileState = Expiring

record StoredAnswer = Expiring +
  season :: int
  episode :: int
  seekTime :: rat

record StoredRunData = Expiring +
  history :: "string list"

text \<open>
  The source tests an expiry with JavaScript's truthiness (\<open>answer.expiryTs && ...\<close>,
  \<open>!data.expiryTs\<close>): \<open>null\<close> is falsy, and so is the number \<open>0\<close>. An expiry is
  \<^emph>\<open>set\<close> for the code exactly when it is truthy.
\<close>

definition truthy :: "int option \<Rightarrow> bool" where
  "truthy e = (case e of None \<Rightarrow> False | Some ts \<Rightarrow> ts \<noteq> 0)"

section \<open>Cleanup of expired answers\<close>

text \<open>
  \<open>answer && answer.expiryTs && answer.expiryTs < Date.now()\<close>, with \<open>now\<close> the value
  \<open>Date.now()\<close> returned to the callback.
\<close>

definition answerExpired :: "int \<Rightarrow> StoredAnswer option \<Rightarrow> bool" where
  "answerExpired now answer =
     (case answer of
        None \<Rightarrow> False
      | Some a \<Rightarrow> (case expiryTs a of None \<Rightarrow> False | Some ts \<Rightarrow> ts \<noteq> 0 \<and> ts < now))"

text \<open>
  The callback of \<open>cleanupAnswers\<close> for one key. \<open>dateNow answerId\<close> is what
  \<open>Date.now()\<close> returns when the callback of \<open>answerId\<close> evaluates its condition.
  A failing \<open>removeItem\<close> is only logged by the source; storage is taken to be reliable.
\<close>

definition cleanupAnswer ::
  "(string \<Rightarrow> int) \<Rightarrow> string \<Rightarrow> StoredAnswer storage \<Rightarrow> StoredAnswer storage" where
  "cleanupAnswer dateNow answerId answers =
     (if answerExpired (dateNow answerId) (answers answerId)
      then answers(answerId := None)
      else answers)"

text \<open>
  \<open>cleanupAnswers\<close> starts one callback per key of \<open>getKeys()\<close> and awaits them all. A
  callback reads and removes only its own key, so the callbacks are run one after the
  other, in the order of the key list.
\<close>

definition cleanupAnswers ::
  "(string \<Rightarrow> int) \<Rightarrow> string list \<Rightarrow> StoredAnswer storage \<Rightarrow> StoredAnswer storage" where
  "cleanupAnswers dateNow answerIds answers = fold (cleanupAnswer dateNow) answerIds answers"

section \<open>Runtime configuration and image files\<close>

text \<open>
  The options of \<open>useRuntimeConfig()\<close> that the modelled functions read. The numeric
  options are taken to be integers, and \<open>imageOutputExtension\<close> a plain word
  (such as \<open>webp\<close>), so that it stands for itself inside a regular expression.
\<close>

record config =
  frameOutputDir :: string
  imageOutputExtension :: string
  frameGenMaxAttempts :: int
  frameRequiredStandardDeviation :: int
  runRetentionThreshold :: int

text \<open>
  Modelled from the spec: \<open>imagePathForId\<close> (module \<open>./file\<close>) is not among the
  sources. The specification gives image files the deterministic names
  \<open>{id}.{extension}\<close> under the configured output directory.
\<close>

definition imagePathForId :: "config \<Rightarrow> string \<Rightarrow> string" where
  "imagePathForId cfg fid = frameOutputDir cfg @ ''/'' @ fid @ ''.'' @ imageOutputExtension cfg"

section \<open>Recovery scan\<close>

text \<open>
  The state \<open>recoverFrames\<close> works on: its six counters, the two storages it reads and
  cleans, and the set of paths that exist on disk (\<open>fs.stat\<close> succeeds on exactly these,
  \<open>fs.rm\<close> removes one).
\<close>

record scan =
  noAnswer :: nat
  unservedAnswer :: nat
  cleanedFileAnswer :: nat
  servedFile :: nat
  recoveredCount :: nat
  missingFile :: nat
  frameStorage :: "StoredFileState storage"
  answerStorage :: "StoredAnswer storage"
  disk :: "string set"

text \<open>
  The callback that \<open>recoverFrames\<close> maps over the ids: it returns the id, or the empty
  string for a frame that is not recovered, and the state it leaves. The removals it
  starts without awaiting them are applied at once.
\<close>

definition recoverFrame :: "config \<Rightarrow> string \<Rightarrow> scan \<Rightarrow> string \<times> scan" where
  "recoverFrame cfg fid st =
     (case (frameStorage st fid, answerStorage st fid) of
        (Some fileData, None) \<Rightarrow>
          ('''', st\<lparr>noAnswer := noAnswer st + 1,
                    frameStorage := (frameStorage st)(fid := None),
                    disk := disk st - {imagePathForId cfg fid}\<rparr>)
      | (None, Some answerData) \<Rightarrow>
          (if \<not> truthy (expiryTs answerData)
           then ('''', st\<lparr>unservedAnswer := unservedAnswer st + 1,
                          answerStorage := (answerStorage st)(fid := None)\<rparr>)
           else ('''', st\<lparr>cleanedFileAnswer := cleanedFileAnswer st + 1\<rparr>))
      | (fileData, answerData) \<Rightarrow>
          (if (case fileData of None \<Rightarrow> False | Some fd \<Rightarrow> truthy (expiryTs fd))
           then ('''', st\<lparr>servedFile := servedFile st + 1\<rparr>)
           else if imagePathForId cfg fid \<in> disk st
           then (fid, st\<lparr>recoveredCount := recoveredCount st + 1\<rparr>)
           else ('''', st\<lparr>missingFile := missingFile st + 1,
                          frameStorage := (frameStorage st)(fid := None),
                          answerStorage :=
                            (if (case answerData of None \<Rightarrow> True
                                 | Some ad \<Rightarrow> \<not> truthy (expiryTs ad))
                             then (answerStorage st)(fid := None)
                             else answerStorage st)\<rparr>)))"

text \<open>
  \<open>Promise.all(ids.map(callback))\<close>: the results in the order of the ids. A callback
  reads and changes only the records and the file of its own id, so the callbacks are
  run one after the other.
\<close>

fun recoverAll :: "config \<Rightarrow> string list \<Rightarrow> scan \<Rightarrow> string list \<times> scan" where
  "recoverAll cfg [] st = ([], st)"
| "recoverAll cfg (fid # ids) st =
     (case recoverFrame cfg fid st of
        (r, st') \<Rightarrow> (case recoverAll cfg ids st' of (rs, st'') \<Rightarrow> (r # rs, st'')))"

text \<open>A queue item \<open>{ imageId }\<close>.\<close>

datatype queueItem = ImageId string

text \<open>
  \<open>recoverFrames\<close>, given the keys \<open>ids\<close> of the frame-state storage, the two storages and
  the disk: the recovered items (\<open>.filter((id) => id)\<close> drops the empty strings) and the
  final state, whose counters are the returned \<open>stats\<close>.
\<close>

definition recoverFrames ::
  "config \<Rightarrow> string list \<Rightarrow> StoredFileState storage \<Rightarrow> StoredAnswer storage \<Rightarrow> string set
     \<Rightarrow> queueItem list \<times> scan" where
  "recoverFrames cfg ids frames answers files =
     (case recoverAll cfg ids
             \<lparr>noAnswer = 0, unservedAnswer = 0, cleanedFileAnswer = 0, servedFile = 0,
              recoveredCount = 0, missingFile = 0,
              frameStorage = frames, answerStorage = answers, disk = files\<rparr> of
        (rs, st) \<Rightarrow> (map ImageId (filter (\<lambda>r. r \<noteq> '''') rs), st))"

text \<open>The six per-category counts of a scan, in the order of the returned \<open>stats\<close>.\<close>

definition counters :: "scan \<Rightarrow> nat list" where
  "counters st = [noAnswer st, unservedAnswer st, cleanedFileAnswer st, servedFile st,
                  recoveredCount st, missingFile st]"

text \<open>
  A frame that is still pending: its FileState and its Answer are both stored with a
  \<open>null\<close> expiry, and its image file exists at the path of its id.
\<close>

definition pendingFrame :: "config \<Rightarrow> string \<Rightarrow> scan \<Rightarrow> bool" where
  "pendingFrame cfg fid st =
     (\<exists>fd ad. frameStorage st fid = Some fd \<and> expiryTs fd = None \<and>
              answerStorage st fid = Some ad \<and> expiryTs ad = None \<and>
              imagePathForId cfg fid \<in> disk st)"

section \<open>Orphaned and expired images\<close>

text \<open>
  \<open>filenameToKeyRe\<close> is the regular expression \<open>/(?<key>[0-9a-f\-]+)\.EXT$\<close> built
  from the image extension. \<open>keyChar\<close> is its character class.
  \<open>matchesFilenameToKeyRe ext frameFile key\<close> says that the expression matches
  \<open>frameFile\<close> with the group \<open>key\<close>: the file name ends with a slash, a non-empty word
  of key characters, a dot and the extension. Since a key holds no slash, at most one
  key matches.
\<close>

definition keyChar :: "char \<Rightarrow> bool" where
  "keyChar c = (c \<in> set ''0123456789abcdef-'')"

definition matchesFilenameToKeyRe :: "string \<Rightarrow> string \<Rightarrow> string \<Rightarrow> bool" where
  "matchesFilenameToKeyRe ext frameFile key =
     (key \<noteq> [] \<and> list_all keyChar key \<and> (\<exists>pre. frameFile = pre @ ''/'' @ key @ ''.'' @ ext))"

text \<open>
  \<open>filenameToKeyRe.exec(frameFile)\<close>, computed: \<open>Some key\<close> for a match with
  \<open>match.groups.key = key\<close>, \<open>None\<close> for \<open>null\<close>. The file name is cut before the final
  \<open>.EXT\<close>, and the key is the longest run of key characters before the cut, which a
  slash must precede.
\<close>

definition filenameToKeyRe :: "string \<Rightarrow> string \<Rightarrow> string option" where
  "filenameToKeyRe ext frameFile =
     (let tail = ''.'' @ ext; n = length frameFile - length tail in
      if length tail \<le> length frameFile \<and> drop n frameFile = tail
      then (let stem = rev (take n frameFile);
                key = takeWhile keyChar stem;
                rest = dropWhile keyChar stem
            in if key \<noteq> [] \<and> rest \<noteq> [] \<and> hd rest = CHR ''/'' then Some (rev key) else None)
      else None)"

text \<open>
  lodash's \<open>intersection\<close>: the values of the first array that are in the second, each
  once, in the order of their first occurrence.
\<close>

definition intersection :: "'a list \<Rightarrow> 'a list \<Rightarrow> 'a list" where
  "intersection xs ys = rev (remdups (rev (filter (\<lambda>x. x \<in> set ys) xs)))"

text \<open>
  The condition under which \<open>cleanupOrphanedImages\<close> removes a listed file: the
  expression matches and \<open>frameFileIds\<close> does not include the key.
\<close>

definition orphaned :: "config \<Rightarrow> string list \<Rightarrow> string \<Rightarrow> bool" where
  "orphaned cfg frameFileIds frameFile =
     (case filenameToKeyRe (imageOutputExtension cfg) frameFile of
        None \<Rightarrow> False
      | Some key \<Rightarrow> key \<notin> set frameFileIds)"

text \<open>
  \<open>fs.rm(path).catch(log)\<close> on the set of files on disk. \<open>removable path\<close> says whether
  \<open>fs.rm\<close> succeeds on the path; a rejected \<open>fs.rm\<close> (the path is a directory, or may
  not be removed) is caught and logged, and leaves the disk as it is.
\<close>

definition fsRm :: "(string \<Rightarrow> bool) \<Rightarrow> string \<Rightarrow> string set \<Rightarrow> string set" where
  "fsRm removable path files = (if removable path then files - {path} else files)"

text \<open>
  \<open>cleanupOrphanedImages\<close> on the set of files on disk: \<open>fs.rm\<close> of every orphaned file
  of the intersection of the two listings.
\<close>

definition cleanupOrphanedImages ::
  "config \<Rightarrow> (string \<Rightarrow> bool) \<Rightarrow> string list \<Rightarrow> string list \<Rightarrow> string list
     \<Rightarrow> string set \<Rightarrow> string set" where
  "cleanupOrphanedImages cfg removable frameFileIds frames1 frames2 files =
     fold (\<lambda>frameFile fs.
             if orphaned cfg frameFileIds frameFile then fsRm removable frameFile fs else fs)
       (intersection frames1 frames2) files"

text \<open>
  The callback of \<open>cleanupExpiredImages\<close> for one tracked id, on the frame-state storage
  and the disk: \<open>storedFileState && storedFileState.expiryTs &&
  storedFileState.expiryTs <= Date.now()\<close> removes the record and the file.
\<close>

definition cleanupExpiredImage ::
  "config \<Rightarrow> (string \<Rightarrow> bool) \<Rightarrow> (string \<Rightarrow> int) \<Rightarrow> string
     \<Rightarrow> StoredFileState storage \<times> string set \<Rightarrow> StoredFileState storage \<times> string set" where
  "cleanupExpiredImage cfg removable dateNow fileId s =
     (case s of (frames, files) \<Rightarrow>
        (case frames fileId of
           None \<Rightarrow> (frames, files)
         | Some storedFileState \<Rightarrow>
             (case expiryTs storedFileState of
                None \<Rightarrow> (frames, files)
              | Some ts \<Rightarrow>
                  if ts \<noteq> 0 \<and> ts \<le> dateNow fileId
                  then (frames(fileId := None), fsRm removable (imagePathForId cfg fileId) files)
                  else (frames, files))))"

definition cleanupExpiredImages ::
  "config \<Rightarrow> (string \<Rightarrow> bool) \<Rightarrow> (string \<Rightarrow> int) \<Rightarrow> string list
     \<Rightarrow> StoredFileState storage \<times> string set \<Rightarrow> StoredFileState storage \<times> string set" where
  "cleanupExpiredImages cfg removable dateNow frameFileIds s =
     fold (cleanupExpiredImage cfg removable dateNow) frameFileIds s"

section \<open>Asynchronous operations\<close>

text \<open>
  The server runs on one thread: synchronous code runs to its next \<open>await\<close>, and an
  operation that was started (a storage call, a subprocess, a directory listing, a timer)
  settles later, while other code runs. The model keeps, for every operation, the time
  at which it was issued, the time at which it settled, and whether it fulfilled or
  rejected. Time is a logical clock in milliseconds; synchronous code takes no time.
  How long an operation takes and whether it succeeds is the environment's choice
  (\<open>io\<close>); \<open>reliable d\<close> is an operation that takes \<open>d\<close> milliseconds and succeeds.
\<close>

record promise =
  issuedAt :: nat
  settledAt :: nat
  fulfilled :: bool

record io =
  took :: nat
  succeeds :: bool

definition start :: "nat \<Rightarrow> io \<Rightarrow> promise" where
  "start t x = \<lparr>issuedAt = t, settledAt = t + took x, fulfilled = succeeds x\<rparr>"

definition reliable :: "nat \<Rightarrow> io" where
  "reliable d = \<lparr>took = d, succeeds = True\<rparr>"

text \<open>
  \<open>Promise.all(ps)\<close>, built at time \<open>t\<close>: it fulfils when the last of \<open>ps\<close> has fulfilled,
  and rejects as soon as one of them rejects. An \<open>await\<close> of it resumes at its
  \<open>settledAt\<close>.
\<close>

definition promiseAll :: "nat \<Rightarrow> promise list \<Rightarrow> promise" where
  "promiseAll t ps =
     (if list_all fulfilled ps
      then \<lparr>issuedAt = t, settledAt = fold max (map settledAt ps) t, fulfilled = True\<rparr>
      else \<lparr>issuedAt = t,
            settledAt = max t (Min (set (map settledAt (filter (\<lambda>p. \<not> fulfilled p) ps)))),
            fulfilled = False\<rparr>)"

section \<open>The image sweep and its two listings\<close>

text \<open>
  What the environment decides in one run of \<open>cleanupOrphanedAndExpiredImages\<close>: how long
  \<open>getKeys\<close> and the two \<open>glob\<close> calls take, by how much the timer of \<open>sleep(1000)\<close> is
  late, what the three calls return, what \<open>Date.now()\<close> returns to the callback of an
  id in \<open>cleanupExpiredImages\<close>, and on which paths \<open>fs.rm\<close> succeeds.
\<close>

record sweepEnv =
  getKeysTook :: nat
  glob1Took :: nat
  glob2Took :: nat
  timerLag :: nat
  frameKeys :: "string list"
  listing1 :: "string list"
  listing2 :: "string list"
  imageClock :: "string \<Rightarrow> int"
  rmSucceeds :: "string \<Rightarrow> bool"

record imageSweep =
  firstListing :: promise
  secondListing :: promise
  cleanupStartedAt :: nat
  framesLeft :: "StoredFileState storage"
  filesLeft :: "string set"

text \<open>
  \<open>cleanupOrphanedAndExpiredImages\<close>, entered at time \<open>t0\<close>. The three operations of the
  first \<open>Promise.all\<close> are issued together; the second \<open>glob\<close> is issued by the \<open>then\<close> of
  the timer, when the timer has settled. The two cleanups start when all three have
  settled; they remove different files, and are applied one after the other.
\<close>

definition cleanupOrphanedAndExpiredImages ::
  "config \<Rightarrow> sweepEnv \<Rightarrow> nat \<Rightarrow> StoredFileState storage \<Rightarrow> string set \<Rightarrow> imageSweep" where
  "cleanupOrphanedAndExpiredImages cfg env t0 frames files =
     (let keysP = start t0 (reliable (getKeysTook env));
          glob1P = start t0 (reliable (glob1Took env));
          sleepP = start t0 (reliable (1000 + timerLag env));
          glob2P = start (settledAt sleepP) (reliable (glob2Took env));
          allP = promiseAll t0 [keysP, glob1P, glob2P];
          files1 = cleanupOrphanedImages cfg (rmSucceeds env) (frameKeys env)
                     (listing1 env) (listing2 env) files;
          left = cleanupExpiredImages cfg (rmSucceeds env) (imageClock env) (frameKeys env)
                   (frames, files1)
      in \<lparr>firstListing = glob1P, secondListing = glob2P, cleanupStartedAt = settledAt allP,
          framesLeft = fst left, filesLeft = snd left\<rparr>)"

section \<open>Cleanup of expired runs\<close>

text \<open>
  The two writes \<open>cleanupExpiredRuns\<close> issues: \<open>runStateStorage.removeItem(runId)\<close> and
  \<open>archivedRunStorage.setItem(runId, data)\<close>; and the two storages they act on.
\<close>

datatype runWrite = RemoveRun string | ArchiveRun string StoredRunData

record runStores =
  runState :: "StoredRunData storage"
  archivedRun :: "StoredRunData storage"

text \<open>
  What the environment decides in one run of \<open>cleanupExpiredRuns\<close>: how long each storage
  call takes, and what \<open>Date.now()\<close> returns to the callback of a run id.
\<close>

record runEnv =
  runKeysTook :: nat
  getRunTook :: "string \<Rightarrow> nat"
  removeRunTook :: "string \<Rightarrow> nat"
  archiveRunTook :: "string \<Rightarrow> nat"
  runClock :: "string \<Rightarrow> int"

text \<open>\<open>!data.expiryTs || data.expiryTs < Date.now()\<close>.\<close>

definition runExpired :: "int \<Rightarrow> StoredRunData \<Rightarrow> bool" where
  "runExpired now data = (case expiryTs data of None \<Rightarrow> True | Some ts \<Rightarrow> ts = 0 \<or> ts < now)"

text \<open>
  The callback of \<open>cleanupExpiredRuns\<close> for one run id, started at time \<open>t\<close>: the writes of
  its \<open>work\<close> array, in the order in which they are issued, each with its promise. Both
  are issued when \<open>getItem\<close> has settled, the removal first; \<open>Promise.all(work)\<close> awaits
  them together.
\<close>

definition cleanupExpiredRun ::
  "config \<Rightarrow> runEnv \<Rightarrow> StoredRunData storage \<Rightarrow> nat \<Rightarrow> string \<Rightarrow> (promise \<times> runWrite) list" where
  "cleanupExpiredRun cfg env runs t runId =
     (let t1 = settledAt (start t (reliable (getRunTook env runId))) in
      case runs runId of
        None \<Rightarrow> []
      | Some data \<Rightarrow>
          if runExpired (runClock env runId) data
          then (let work = [(start t1 (reliable (removeRunTook env runId)), RemoveRun runId)] in
                if runRetentionThreshold cfg \<le> int (length (history data))
                then work @ [(start t1 (reliable (archiveRunTook env runId)),
                              ArchiveRun runId (data\<lparr>expiryTs := None\<rparr>))]
                else work)
          else [])"

text \<open>
  \<open>cleanupExpiredRuns\<close>, entered at time \<open>t0\<close> with the live run storage \<open>runs\<close>: the writes
  of all callbacks, for the keys that \<open>getKeys\<close> returned.
\<close>

definition cleanupExpiredRuns ::
  "config \<Rightarrow> runEnv \<Rightarrow> string list \<Rightarrow> StoredRunData storage \<Rightarrow> nat \<Rightarrow> (promise \<times> runWrite) list" where
  "cleanupExpiredRuns cfg env keys runs t0 =
     concat (map (cleanupExpiredRun cfg env runs
                    (settledAt (start t0 (reliable (runKeysTook env))))) keys)"

text \<open>The time at which the sweep has awaited all its writes.\<close>

definition sweepDoneAt :: "nat \<Rightarrow> (promise \<times> runWrite) list \<Rightarrow> nat" where
  "sweepDoneAt t0 work = settledAt (promiseAll t0 (map fst work))"

fun applyRunWrite :: "runWrite \<Rightarrow> runStores \<Rightarrow> runStores" where
  "applyRunWrite (RemoveRun runId) s = s\<lparr>runState := (runState s)(runId := None)\<rparr>"
| "applyRunWrite (ArchiveRun runId data) s = s\<lparr>archivedRun := (archivedRun s)(runId \<mapsto> data)\<rparr>"

text \<open>
  The two storages at time \<open>t\<close>: the writes that have settled by then, applied in the
  order in which they settled.
\<close>

definition storesAt :: "nat \<Rightarrow> (promise \<times> runWrite) list \<Rightarrow> runStores \<Rightarrow> runStores" where
  "storesAt t work s =
     fold applyRunWrite
       (map snd (sort_key (\<lambda>pw. settledAt (fst pw)) (filter (\<lambda>pw. settledAt (fst pw) \<le> t) work))) s"

section \<open>Frame generation\<close>

text \<open>
  An episode of the catalogue, and what \<open>chooseFrame()\<close> returns (the source's
  \<open>RandomEpisode\<close>, with fields \<open>episode\<close> and \<open>seekTime\<close>).
\<close>

record ServerEpisodeData =
  season_number :: int
  episode_number :: int
  filename :: string

record RandomEpisode =
  chosenEpisode :: ServerEpisodeData
  chosenSeekTime :: rat

datatype error = ExecError | StorageError

text \<open>
  What the environment decides in one frame generation: the id \<open>myUuid(config)\<close>
  returns; the random frame the \<open>k\<close>-th call of \<open>chooseFrame()\<close> returns (\<open>k\<close> from \<open>0\<close>);
  how long the \<open>k\<close>-th run of ffmpeg and of identify takes and whether it exits with
  success (\<open>exec\<close> rejects otherwise); the number \<open>parseInt\<close> reads from the \<open>k\<close>-th
  output of identify (\<open>None\<close> is \<open>NaN\<close>); and how the two \<open>setItem\<close> calls go. Every
  operation settles: a subprocess that hangs for ever is outside the model.
\<close>

record genEnv =
  uuid :: string
  chooseFrame :: "nat \<Rightarrow> RandomEpisode"
  ffmpegRun :: "nat \<Rightarrow> io"
  identifyRun :: "nat \<Rightarrow> io"
  identifyStddev :: "nat \<Rightarrow> int option"
  storeFileState :: io
  storeAnswer :: io

text \<open>
  What a call of \<open>ffmpegFrame\<close> did: the frame it returned or the error it threw, the
  final value of its counter \<open>rejected\<close>, the time at which it returned or threw, and the
  runs of ffmpeg it started, in order.
\<close>

record frameRun =
  outcome :: "error + RandomEpisode"
  rejected :: int
  finishedAt :: nat
  extractions :: "promise list"

text \<open>
  The \<open>do ... while\<close> loop of \<open>ffmpegFrame\<close>, entered at time \<open>t\<close> with the counter at
  \<open>rejected0\<close>. One pass increments the counter, chooses a frame and awaits ffmpeg; the
  loop condition \<open>requiredStddev > 0 && rejected < maxRejects && parseInt(...) <
  requiredStddev\<close> runs identify only when its first two conjuncts hold, and a comparison
  with \<open>NaN\<close> is false.
\<close>

function ffmpegLoop :: "config \<Rightarrow> genEnv \<Rightarrow> nat \<Rightarrow> int \<Rightarrow> promise list \<Rightarrow> frameRun" where
  "ffmpegLoop cfg env t rejected0 procs =
     (let rejected1 = rejected0 + 1;
          random = chooseFrame env (nat rejected1);
          extractP = start t (ffmpegRun env (nat rejected1));
          t1 = settledAt extractP;
          procs1 = procs @ [extractP]
      in if \<not> fulfilled extractP
         then \<lparr>outcome = Inl ExecError, rejected = rejected1, finishedAt = t1, extractions = procs1\<rparr>
         else if 0 < frameRequiredStandardDeviation cfg \<and> rejected1 < frameGenMaxAttempts cfg
         then (let identifyP = start t1 (identifyRun env (nat rejected1));
                   t2 = settledAt identifyP
               in if \<not> fulfilled identifyP
                  then \<lparr>outcome = Inl ExecError, rejected = rejected1, finishedAt = t2,
                        extractions = procs1\<rparr>
                  else if (case identifyStddev env (nat rejected1) of
                             None \<Rightarrow> False
                           | Some sd \<Rightarrow> sd < frameRequiredStandardDeviation cfg)
                  then ffmpegLoop cfg env t2 rejected1 procs1
                  else \<lparr>outcome = Inr random, rejected = rejected1, finishedAt = t2,
                        extractions = procs1\<rparr>)
         else \<lparr>outcome = Inr random, rejected = rejected1, finishedAt = t1, extractions = procs1\<rparr>)"
  by pat_completeness auto
termination
  by (relation "measure (\<lambda>(cfg, env, t, rejected0, procs). nat (frameGenMaxAttempts cfg - rejected0))")
     auto

text \<open>\<open>ffmpegFrame\<close>: \<open>let rejected = -1\<close>, then the loop.\<close>

definition ffmpegFrame :: "config \<Rightarrow> genEnv \<Rightarrow> string \<Rightarrow> nat \<Rightarrow> frameRun" where
  "ffmpegFrame cfg env outputPath t = ffmpegLoop cfg env t (- 1) []"

text \<open>
  The condition under which a pass of the loop is followed by another one: ffmpeg and
  identify succeeded, and the loop condition holds.
\<close>

definition retry :: "config \<Rightarrow> genEnv \<Rightarrow> nat \<Rightarrow> int \<Rightarrow> bool" where
  "retry cfg env t rejected1 =
     (fulfilled (start t (ffmpegRun env (nat rejected1)))
      \<and> 0 < frameRequiredStandardDeviation cfg \<and> rejected1 < frameGenMaxAttempts cfg
      \<and> fulfilled (start (settledAt (start t (ffmpegRun env (nat rejected1))))
                     (identifyRun env (nat rejected1)))
      \<and> (case identifyStddev env (nat rejected1) of
            None \<Rightarrow> False
          | Some sd \<Rightarrow> sd < frameRequiredStandardDeviation cfg))"

text \<open>
  The operations a frame generation issues: the write of a FileState, the \<open>k\<close>-th run of
  ffmpeg, the write of an Answer.
\<close>

datatype call =
    SetFileState string StoredFileState
  | RunFfmpeg nat
  | SetAnswer string StoredAnswer

fun isRunFfmpeg :: "call \<Rightarrow> bool" where
  "isRunFfmpeg (RunFfmpeg k) = True"
| "isRunFfmpeg c = False"

text \<open>
  What a call of \<open>generateFrame\<close> did: the item it returned or the error it threw, the
  time of that, the promise \<open>storeImageIdP\<close> of the FileState write with the key and
  record written, the call of \<open>ffmpegFrame\<close>, and the promise of the Answer write with
  the key and record written (none when \<open>ffmpegFrame\<close> threw). \<open>issued\<close> lists the
  storage writes and the runs of ffmpeg with their promises, in the order in which the
  generation issued them: synchronous code takes no time on the clock, so operations
  issued in one synchronous run carry the same time, and only their place in this list
  tells which was issued first.
\<close>

record generation =
  result :: "error + queueItem"
  returnedAt :: nat
  storeImageIdP :: promise
  fileStateWritten :: "string \<times> StoredFileState"
  frame :: frameRun
  answerP :: "promise option"
  answerWritten :: "(string \<times> StoredAnswer) option"
  issued :: "(call \<times> promise) list"

text \<open>
  \<open>generateFrame\<close>, entered at time \<open>t0\<close>. \<open>frameStateStorage.setItem\<close> is called, and not
  awaited, before \<open>ffmpegFrame\<close>; \<open>answerStorage.setItem\<close> is called when \<open>ffmpegFrame\<close>
  has returned; the final \<open>await Promise.all\<close> awaits both writes.
\<close>

definition generateFrame :: "config \<Rightarrow> genEnv \<Rightarrow> nat \<Rightarrow> generation" where
  "generateFrame cfg env t0 =
     (let imageId = uuid env;
          imagePath = imagePathForId cfg imageId;
          storeImageIdP = start t0 (storeFileState env);
          storeCall = (SetFileState imageId \<lparr>expiryTs = None\<rparr>, storeImageIdP);
          run = ffmpegFrame cfg env imagePath t0;
          runCalls = zip (map RunFfmpeg [0..<length (extractions run)]) (extractions run)
      in case outcome run of
           Inl e \<Rightarrow>
             \<lparr>result = Inl e, returnedAt = finishedAt run, storeImageIdP = storeImageIdP,
              fileStateWritten = (imageId, \<lparr>expiryTs = None\<rparr>), frame = run,
              answerP = None, answerWritten = None,
              issued = storeCall # runCalls\<rparr>
         | Inr random \<Rightarrow>
             (let answer = \<lparr>expiryTs = None,
                            season = season_number (chosenEpisode random),
                            episode = episode_number (chosenEpisode random),
                            seekTime = chosenSeekTime random\<rparr>;
                  answerP = start (finishedAt run) (storeAnswer env);
                  allP = promiseAll (finishedAt run) [answerP, storeImageIdP]
              in \<lparr>result = (if fulfilled allP then Inr (ImageId imageId) else Inl StorageError),
                  returnedAt = settledAt allP, storeImageIdP = storeImageIdP,
                  fileStateWritten = (imageId, \<lparr>expiryTs = None\<rparr>), frame = run,
                  answerP = Some answerP,
                  answerWritten = Some (imageId, answer),
                  issued = storeCall # runCalls @ [(SetAnswer imageId answer, answerP)]\<rparr>))"

text \<open>
  The frame-state storage and the answer storage at time \<open>t\<close>, as a generation changes
  them: a write is in the storage once it has settled with success.
\<close>

definition frameStateAt :: "generation \<Rightarrow> nat \<Rightarrow> StoredFileState storage \<Rightarrow> StoredFileState storage" where
  "frameStateAt g t frames =
     (if fulfilled (storeImageIdP g) \<and> settledAt (storeImageIdP g) \<le> t
      then frames(fst (fileStateWritten g) \<mapsto> snd (fileStateWritten g))
      else frames)"

definition answersAt :: "generation \<Rightarrow> nat \<Rightarrow> StoredAnswer storage \<Rightarrow> StoredAnswer storage" where
  "answersAt g t answers =
     (case (answerP g, answerWritten g) of
        (Some p, Some (k, v)) \<Rightarrow>
          if fulfilled p \<and> settledAt p \<le> t then answers(k \<mapsto> v) else answers
      | _ \<Rightarrow> answers)"

text \<open>The first run of ffmpeg of a generation (every generation starts one).\<close>

definition firstExtraction :: "generation \<Rightarrow> promise" where
  "firstExtraction g = hd (extractions (frame g))"

section \<open>The frame endpoint\<close>

text \<open>
  The request as the handler of \<open>frame/get/[basename]\<close> reads it: the router parameter
  and the two query parameters, each possibly missing.
\<close>

record request =
  basename :: "string option"
  cleanuponload :: "string option"
  runId :: "string option"

text \<open>\<open>createReadStream\<close> returns a stream, or throws \<open>ENOENT\<close> or another error.\<close>

datatype opened = Opened | ENOENT | OtherError

record stream =
  streamFile :: string
  frameId :: string
  logFetchToRun :: "string option"
  cleanupOnClose :: bool

datatype response = HttpError nat | SendStream stream

text \<open>What the handler did: its response, and the paths it passed to the file system.\<close>

record handled =
  response :: response
  accessed :: "string list"

text \<open>\<open>traversingPathRe.test(s)\<close> for the expression \<open>/[/\\]|\.\./\<close>.\<close>

definition traversingPathRe :: "string \<Rightarrow> bool" where
  "traversingPathRe s = (CHR ''/'' \<in> set s \<or> CHR 0x5C \<in> set s \<or> sublist ''..'' s)"

text \<open>
  Node's \<open>path.join(dir, name)\<close> for a \<open>name\<close> that is one path segment; the
  normalisation of \<open>dir\<close> itself is left out.
\<close>

definition pathJoin :: "string \<Rightarrow> string \<Rightarrow> string" where
  "pathJoin dir name = dir @ ''/'' @ name"

text \<open>
  The event handler. \<open>!basename\<close> holds for a missing parameter and for the empty
  string. The \<open>close\<close> listeners are recorded in the stream: the run to log the fetch
  to (\<open>if (runId)\<close>) and whether the frame is cleaned up on load.
\<close>

definition handler :: "config \<Rightarrow> (string \<Rightarrow> opened) \<Rightarrow> request \<Rightarrow> handled" where
  "handler cfg createReadStream req =
     (case basename req of
        None \<Rightarrow> \<lparr>response = HttpError 404, accessed = []\<rparr>
      | Some b \<Rightarrow>
          if b = [] then \<lparr>response = HttpError 404, accessed = []\<rparr>
          else if traversingPathRe b \<or> \<not> suffix (''.'' @ imageOutputExtension cfg) b
          then \<lparr>response = HttpError 400, accessed = []\<rparr>
          else (let file = pathJoin (frameOutputDir cfg) b in
                case createReadStream file of
                  Opened \<Rightarrow>
                    \<lparr>response = SendStream
                       \<lparr>streamFile = file,
                        frameId = take (length b - (length (imageOutputExtension cfg) + 1)) b,
                        logFetchToRun =
                          (case runId req of None \<Rightarrow> None | Some r \<Rightarrow> if r = [] then None else Some r),
                        cleanupOnClose =
                          (case cleanuponload req of
                             None \<Rightarrow> False
                           | Some c \<Rightarrow> c \<noteq> [] \<and> c \<noteq> ''false'' \<and> c \<noteq> ''0'')\<rparr>,
                     accessed = [file]\<rparr>
                | ENOENT \<Rightarrow> \<lparr>response = HttpError 404, accessed = [file]\<rparr>
                | OtherError \<Rightarrow> \<lparr>response = HttpError 500, accessed = [file]\<rparr>))"

text \<open>
  A path that names a file directly inside the frame output directory: the directory, a
  slash, and one segment without a separator and without \<open>..\<close>, ending in the image
  extension.
\<close>

definition insideFrameOutputDir :: "config \<Rightarrow> string \<Rightarrow> bool" where
  "insideFrameOutputDir cfg path =
     (\<exists>name. path = frameOutputDir cfg @ ''/'' @ name
        \<and> CHR ''/'' \<notin> set name \<and> CHR 0x5C \<notin> set name \<and> \<not> sublist ''..'' name
        \<and> suffix (''.'' @ imageOutputExtension cfg) name)"

section \<open>Example inputs\<close>

definition exampleConfig :: config where
  "exampleConfig =
     \<lparr>frameOutputDir = ''/tmp/frames'', imageOutputExtension = ''webp'', frameGenMaxAttempts = 2,
      frameRequiredStandardDeviation = 10, runRetentionThreshold = 5\<rparr>"

text \<open>
  A generation in which every extracted frame is too flat (standard deviation \<open>3\<close>), the
  FileState write takes 5 ms and the Answer write 7 ms.
\<close>

definition exampleGenEnv :: genEnv where
  "exampleGenEnv =
     \<lparr>uuid = ''0a1b'',
      chooseFrame = (\<lambda>k. \<lparr>chosenEpisode = \<lparr>season_number = 1, episode_number = 2,
                                             filename = ''s01e02.mkv''\<rparr>,
                           chosenSeekTime = of_nat k\<rparr>),
      ffmpegRun = (\<lambda>_. reliable 100), identifyRun = (\<lambda>_. reliable 10),
      identifyStddev = (\<lambda>_. Some 3),
      storeFileState = reliable 5, storeAnswer = reliable 7\<rparr>"

text \<open>
  An expired run whose history has ten entries, and a sweep in which the removal of a
  run takes 1 ms and its archival 10 ms.
\<close>

definition exampleRun :: StoredRunData where
  "exampleRun = \<lparr>expiryTs = Some 999, history = replicate 10 ''frame''\<rparr>"

definition exampleRunEnv :: runEnv where
  "exampleRunEnv =
     \<lparr>runKeysTook = 1, getRunTook = (\<lambda>_. 1), removeRunTook = (\<lambda>_. 1),
      archiveRunTook = (\<lambda>_. 10), runClock = (\<lambda>_. 1000)\<rparr>"

section \<open>Results about the cleanup of answers\<close>

lemma cleanupAnswer_other:
  "k \<noteq> answerId \<Longrightarrow> cleanupAnswer dateNow answerId answers k = answers k"
  by (simp add: cleanupAnswer_def)

lemma cleanupAnswer_self:
  "cleanupAnswer dateNow k answers k =
     (if answerExpired (dateNow k) (answers k) then None else answers k)"
  by (simp add: cleanupAnswer_def)

lemma answerExpired_None [simp]: "answerExpired now None = False"
  by (simp add: answerExpired_def)

lemma fold_cleanupAnswer_absent:
  "k \<notin> set answerIds \<Longrightarrow> fold (cleanupAnswer dateNow) answerIds answers k = answers k"
  by (induction answerIds arbitrary: answers) (simp_all add: cleanupAnswer_other)

lemma fold_cleanupAnswer_kept:
  "\<not> answerExpired (dateNow k) (answers k) \<Longrightarrow>
   fold (cleanupAnswer dateNow) answerIds answers k = answers k"
proof (induction answerIds arbitrary: answers)
  case Nil
  then show ?case by simp
next
  case (Cons i ids)
  have same: "cleanupAnswer dateNow i answers k = answers k"
    using Cons.prems by (cases "k = i") (simp_all add: cleanupAnswer_self cleanupAnswer_other)
  then have "\<not> answerExpired (dateNow k) (cleanupAnswer dateNow i answers k)"
    using Cons.prems by simp
  with Cons.IH [of "cleanupAnswer dateNow i answers"] same show ?case by simp
qed

lemma fold_cleanupAnswer_removed:
  "k \<in> set answerIds \<Longrightarrow> answerExpired (dateNow k) (answers k) \<Longrightarrow>
   fold (cleanupAnswer dateNow) answerIds answers k = None"
proof (induction answerIds arbitrary: answers)
  case Nil
  then show ?case by simp
next
  case (Cons i ids)
  show ?case
  proof (cases "k = i")
    case True
    then have gone: "cleanupAnswer dateNow i answers k = None"
      using Cons.prems by (simp add: cleanupAnswer_self)
    then have "\<not> answerExpired (dateNow k) (cleanupAnswer dateNow i answers k)" by simp
    with fold_cleanupAnswer_kept [of dateNow k "cleanupAnswer dateNow i answers" ids] gone
    show ?thesis by simp
  next
    case False
    then have "k \<in> set ids" using Cons.prems by simp
    moreover have "answerExpired (dateNow k) (cleanupAnswer dateNow i answers k)"
      using False Cons.prems by (simp add: cleanupAnswer_other)
    ultimately show ?thesis using Cons.IH by simp
  qed
qed

text \<open>
  C9. In a sweep whose callback for key \<open>k\<close> reads the system time \<open>T\<close>, a stored answer
  whose expiry is set (truthy, as the source tests it) and smaller than \<open>T\<close> is gone from
  the answer store after the sweep, and an answer whose expiry is unset (\<open>null\<close>, or the
  falsy \<open>0\<close>) or not smaller than \<open>T\<close> is still stored unchanged. In particular an answer
  expiring at \<open>T - 1\<close> is deleted and one expiring at \<open>T + 1000\<close> survives.
\<close>

theorem cleanupAnswers_expired_deleted_others_survive:
  assumes "answers k = Some a" and "k \<in> set answerIds" and "dateNow k = T"
  shows "cleanupAnswers dateNow answerIds answers k =
           (if truthy (expiryTs a) \<and> the (expiryTs a) < T then None else Some a)"
proof (cases "answerExpired (dateNow k) (answers k)")
  case True
  then have "truthy (expiryTs a) \<and> the (expiryTs a) < T"
    using assms by (auto simp: answerExpired_def truthy_def split: option.splits)
  moreover have "cleanupAnswers dateNow answerIds answers k = None"
    unfolding cleanupAnswers_def using assms(2) True by (rule fold_cleanupAnswer_removed)
  ultimately show ?thesis by simp
next
  case False
  then have "\<not> (truthy (expiryTs a) \<and> the (expiryTs a) < T)"
    using assms by (auto simp: answerExpired_def truthy_def split: option.splits)
  moreover have "cleanupAnswers dateNow answerIds answers k = answers k"
    unfolding cleanupAnswers_def using False by (rule fold_cleanupAnswer_kept)
  ultimately show ?thesis using assms(1) by simp
qed

theorem cleanupAnswers_expired_deleted_others_survive_witness:
  "cleanupAnswers (\<lambda>_. 1000) [''f1'', ''f2'']
     [''f1'' \<mapsto> \<lparr>expiryTs = Some 999, season = 1, episode = 2, seekTime = 167 / 2\<rparr>,
      ''f2'' \<mapsto> \<lparr>expiryTs = Some 2000, season = 3, episode = 4, seekTime = 10\<rparr>] ''f1'' = None
   \<and> cleanupAnswers (\<lambda>_. 1000) [''f1'', ''f2'']
     [''f1'' \<mapsto> \<lparr>expiryTs = Some 999, season = 1, episode = 2, seekTime = 167 / 2\<rparr>,
      ''f2'' \<mapsto> \<lparr>expiryTs = Some 2000, season = 3, episode = 4, seekTime = 10\<rparr>] ''f2''
       = Some \<lparr>expiryTs = Some 2000, season = 3, episode = 4, seekTime = 10\<rparr>"
  using
    cleanupAnswers_expired_deleted_others_survive
      [of "[''f1'' \<mapsto> \<lparr>expiryTs = Some 999, season = 1, episode = 2, seekTime = 167 / 2\<rparr>,
            ''f2'' \<mapsto> \<lparr>expiryTs = Some 2000, season = 3, episode = 4, seekTime = 10\<rparr>]"
          "''f1''" "\<lparr>expiryTs = Some 999, season = 1, episode = 2, seekTime = 167 / 2\<rparr>"
          "[''f1'', ''f2'']" "\<lambda>_. 1000" 1000]
    cleanupAnswers_expired_deleted_others_survive
      [of "[''f1'' \<mapsto> \<lparr>expiryTs = Some 999, season = 1, episode = 2, seekTime = 167 / 2\<rparr>,
            ''f2'' \<mapsto> \<lparr>expiryTs = Some 2000, season = 3, episode = 4, seekTime = 10\<rparr>]"
          "''f2''" "\<lparr>expiryTs = Some 2000, season = 3, episode = 4, seekTime = 10\<rparr>"
          "[''f1'', ''f2'']" "\<lambda>_. 1000" 1000]
  by (simp add: truthy_def)

section \<open>Results about the recovery scan\<close>

lemma recoverFrame_one_category:
  "\<exists>i<6. counters (snd (recoverFrame cfg fid st)) = (counters st)[i := counters st ! i + 1]"
proof -
  let ?c = "counters (snd (recoverFrame cfg fid st))"
  have "?c = (counters st)[0 := counters st ! 0 + 1] \<or> ?c = (counters st)[1 := counters st ! 1 + 1]
      \<or> ?c = (counters st)[2 := counters st ! 2 + 1] \<or> ?c = (counters st)[3 := counters st ! 3 + 1]
      \<or> ?c = (counters st)[4 := counters st ! 4 + 1] \<or> ?c = (counters st)[5 := counters st ! 5 + 1]"
    by (simp add: recoverFrame_def counters_def split: option.splits)
  moreover have "(0::nat) < 6" "(1::nat) < 6" "(2::nat) < 6" "(3::nat) < 6" "(4::nat) < 6" "(5::nat) < 6"
    by simp_all
  ultimately show ?thesis by blast
qed

lemma recoverFrame_sum:
  "sum_list (counters (snd (recoverFrame cfg fid st))) = sum_list (counters st) + 1"
  by (simp add: recoverFrame_def counters_def split: option.splits)

lemma recoverAll_sum:
  "sum_list (counters (snd (recoverAll cfg ids st))) = sum_list (counters st) + length ids"
proof (induction ids arbitrary: st)
  case Nil
  then show ?case by simp
next
  case (Cons fid ids)
  obtain r st' where step: "recoverFrame cfg fid st = (r, st')" by (cases "recoverFrame cfg fid st")
  obtain rs st'' where rest: "recoverAll cfg ids st' = (rs, st'')" by (cases "recoverAll cfg ids st'")
  have "sum_list (counters st') = sum_list (counters st) + 1"
    using recoverFrame_sum [of cfg fid st] step by simp
  moreover have "sum_list (counters st'') = sum_list (counters st') + length ids"
    using Cons.IH [of st'] rest by simp
  ultimately show ?case using step rest by simp
qed

text \<open>
  C3. Every callback of the recovery scan adds one to exactly one of the six counters
  (no-answer, unserved-answer, cleaned-file-answer, served-file, recovered, missing-file)
  and leaves the other five alone, so after the scan the six counts add up to the number
  of scanned ids.
\<close>

theorem recoverFrames_counts:
  "sum_list (counters (snd (recoverFrames cfg ids frames answers files))) = length ids
   \<and> (\<exists>i<6. counters (snd (recoverFrame cfg fid st)) = (counters st)[i := counters st ! i + 1])"
proof -
  let ?st0 = "\<lparr>noAnswer = 0, unservedAnswer = 0, cleanedFileAnswer = 0, servedFile = 0,
              recoveredCount = 0, missingFile = 0,
              frameStorage = frames, answerStorage = answers, disk = files\<rparr>"
  have "snd (recoverFrames cfg ids frames answers files) = snd (recoverAll cfg ids ?st0)"
    by (simp add: recoverFrames_def split: prod.splits)
  moreover have "sum_list (counters ?st0) = 0" by (simp add: counters_def)
  ultimately have "sum_list (counters (snd (recoverFrames cfg ids frames answers files))) = length ids"
    using recoverAll_sum [of cfg ids ?st0] by simp
  then show ?thesis using recoverFrame_one_category [of cfg fid st] by simp
qed

lemma imagePathForId_inj: "imagePathForId cfg a = imagePathForId cfg b \<Longrightarrow> a = b"
  by (simp add: imagePathForId_def)

lemma recoverFrame_keeps:
  assumes "other \<noteq> fid" and "pendingFrame cfg fid st"
  shows "pendingFrame cfg fid (snd (recoverFrame cfg other st))"
proof -
  have "imagePathForId cfg other \<noteq> imagePathForId cfg fid"
    using assms(1) imagePathForId_inj by blast
  then show ?thesis
    using assms by (auto simp: recoverFrame_def pendingFrame_def split: option.splits)
qed

lemma recoverFrame_returns: "fst (recoverFrame cfg other st) \<in> {'''', other}"
  by (simp add: recoverFrame_def split: option.splits)

lemma recoverFrame_pending: "pendingFrame cfg fid st \<Longrightarrow> fst (recoverFrame cfg fid st) = fid"
  by (auto simp: recoverFrame_def pendingFrame_def truthy_def split: option.splits)

lemma recoverAll_absent:
  "fid \<notin> set ids \<Longrightarrow> fid \<noteq> '''' \<Longrightarrow> count_list (fst (recoverAll cfg ids st)) fid = 0"
proof (induction ids arbitrary: st)
  case Nil
  then show ?case by simp
next
  case (Cons other ids)
  obtain r st' where step: "recoverFrame cfg other st = (r, st')" by (cases "recoverFrame cfg other st")
  obtain rs st'' where rest: "recoverAll cfg ids st' = (rs, st'')" by (cases "recoverAll cfg ids st'")
  have "r \<noteq> fid" using recoverFrame_returns [of cfg other st] step Cons.prems by auto
  moreover have "count_list rs fid = 0" using Cons.IH [of st'] Cons.prems rest by simp
  ultimately show ?case using step rest by simp
qed

lemma recoverAll_once:
  "distinct ids \<Longrightarrow> fid \<in> set ids \<Longrightarrow> fid \<noteq> '''' \<Longrightarrow> pendingFrame cfg fid st \<Longrightarrow>
   count_list (fst (recoverAll cfg ids st)) fid = 1"
proof (induction ids arbitrary: st)
  case Nil
  then show ?case by simp
next
  case (Cons other ids)
  obtain r st' where step: "recoverFrame cfg other st = (r, st')" by (cases "recoverFrame cfg other st")
  obtain rs st'' where rest: "recoverAll cfg ids st' = (rs, st'')" by (cases "recoverAll cfg ids st'")
  show ?case
  proof (cases "other = fid")
    case True
    then have "r = fid" using recoverFrame_pending [OF Cons.prems(4)] step by simp
    moreover have "fid \<notin> set ids" using True Cons.prems(1) by simp
    then have "count_list rs fid = 0"
      using recoverAll_absent [of fid ids cfg st'] Cons.prems(3) rest by simp
    ultimately show ?thesis using step rest by simp
  next
    case False
    then have "r \<noteq> fid" using recoverFrame_returns [of cfg other st] step Cons.prems(3) by auto
    moreover have "pendingFrame cfg fid st'"
      using recoverFrame_keeps [OF False Cons.prems(4)] step by simp
    then have "count_list rs fid = 1"
      using Cons.IH [of st'] Cons.prems False rest by simp
    ultimately show ?thesis using step rest by simp
  qed
qed

lemma count_list_items:
  "fid \<noteq> '''' \<Longrightarrow>
   count_list (map ImageId (filter (\<lambda>r. r \<noteq> '''') rs)) (ImageId fid) = count_list rs fid"
  by (induction rs) auto

text \<open>
  C2. Let the keys returned by the frame-state storage be distinct, and let \<open>fid\<close> be one
  of them, a proper (non-empty) id: the empty string is the callback's own marker for
  "nothing recovered". If the FileState and the Answer of \<open>fid\<close> are both stored with a
  \<open>null\<close> expiry and the image file exists at the path of \<open>fid\<close>, the recovered seed list
  holds the item \<open>{ imageId: fid }\<close> exactly once.
\<close>

theorem recoverFrames_recovers_once:
  assumes "distinct ids" and "fid \<in> set ids" and "fid \<noteq> ''''"
    and "frames fid = Some fd" and "expiryTs fd = None"
    and "answers fid = Some ad" and "expiryTs ad = None"
    and "imagePathForId cfg fid \<in> files"
  shows "count_list (fst (recoverFrames cfg ids frames answers files)) (ImageId fid) = 1"
proof -
  let ?st0 = "\<lparr>noAnswer = 0, unservedAnswer = 0, cleanedFileAnswer = 0, servedFile = 0,
              recoveredCount = 0, missingFile = 0,
              frameStorage = frames, answerStorage = answers, disk = files\<rparr>"
  have "pendingFrame cfg fid ?st0" using assms by (simp add: pendingFrame_def)
  then have "count_list (fst (recoverAll cfg ids ?st0)) fid = 1"
    using assms(1-3) by (rule recoverAll_once [rotated 3])
  moreover have "fst (recoverFrames cfg ids frames answers files)
      = map ImageId (filter (\<lambda>r. r \<noteq> '''') (fst (recoverAll cfg ids ?st0)))"
    by (simp add: recoverFrames_def split: prod.splits)
  ultimately show ?thesis using count_list_items [OF assms(3)] by simp
qed

theorem recoverFrames_recovers_once_witness:
  "count_list (fst (recoverFrames
      \<lparr>frameOutputDir = ''/tmp/frames'', imageOutputExtension = ''webp'', frameGenMaxAttempts = 3,
        frameRequiredStandardDeviation = 0, runRetentionThreshold = 5\<rparr>
      [''f0'', ''f1'']
      [''f0'' \<mapsto> \<lparr>expiryTs = Some 5\<rparr>, ''f1'' \<mapsto> \<lparr>expiryTs = None\<rparr>]
      [''f1'' \<mapsto> \<lparr>expiryTs = None, season = 1, episode = 2, seekTime = 167 / 2\<rparr>]
      {''/tmp/frames/f1.webp''})) (ImageId ''f1'') = 1"
  using recoverFrames_recovers_once
    [of "[''f0'', ''f1'']" "''f1''"
        "[''f0'' \<mapsto> \<lparr>expiryTs = Some 5\<rparr>, ''f1'' \<mapsto> \<lparr>expiryTs = None\<rparr>]" "\<lparr>expiryTs = None\<rparr>"
        "[''f1'' \<mapsto> \<lparr>expiryTs = None, season = 1, episode = 2, seekTime = 167 / 2\<rparr>]"
        "\<lparr>expiryTs = None, season = 1, episode = 2, seekTime = 167 / 2\<rparr>"
        "\<lparr>frameOutputDir = ''/tmp/frames'', imageOutputExtension = ''webp'', frameGenMaxAttempts = 3,
        frameRequiredStandardDeviation = 0, runRetentionThreshold = 5\<rparr>"
        "{''/tmp/frames/f1.webp''}"]
  by (simp add: imagePathForId_def)

section \<open>Results about the orphan sweep\<close>

lemma keyChar_slash [simp]: "\<not> keyChar CHR ''/''"
  by (simp add: keyChar_def)

lemma filenameToKeyRe_complete:
  assumes "matchesFilenameToKeyRe ext frameFile key"
  shows "filenameToKeyRe ext frameFile = Some key"
proof -
  from assms obtain pre where f: "frameFile = pre @ ''/'' @ key @ ''.'' @ ext"
    and ne: "key \<noteq> []" and kc: "list_all keyChar key"
    by (auto simp: matchesFilenameToKeyRe_def)
  let ?tail = "''.'' @ ext"
  let ?n = "length frameFile - length ?tail"
  have n: "?n = length (pre @ ''/'' @ key)" using f by simp
  have fsplit: "frameFile = (pre @ ''/'' @ key) @ ?tail" using f by simp
  have dr: "drop ?n frameFile = ?tail" by (subst fsplit, subst n) simp
  have tk: "take ?n frameFile = pre @ ''/'' @ key" by (subst fsplit, subst n) simp
  have stem: "rev (take ?n frameFile) = rev key @ CHR ''/'' # rev pre" using tk by simp
  have all: "\<forall>c\<in>set (rev key). keyChar c" using kc by (simp add: list_all_iff)
  have tw: "takeWhile keyChar (rev (take ?n frameFile)) = rev key"
    unfolding stem using all by (simp add: takeWhile_tail)
  have "dropWhile keyChar (rev key @ CHR ''/'' # rev pre) = dropWhile keyChar (CHR ''/'' # rev pre)"
    by (rule dropWhile_append2) (use all in blast)
  then have dw: "dropWhile keyChar (rev (take ?n frameFile)) = CHR ''/'' # rev pre"
    unfolding stem by simp
  have le: "length ?tail \<le> length frameFile" using f by simp
  show ?thesis
    unfolding filenameToKeyRe_def Let_def using le dr tw dw ne by simp
qed

lemma filenameToKeyRe_sound:
  assumes "filenameToKeyRe ext frameFile = Some key"
  shows "matchesFilenameToKeyRe ext frameFile key"
proof -
  let ?tail = "''.'' @ ext"
  let ?n = "length frameFile - length ?tail"
  let ?stem = "rev (take ?n frameFile)"
  let ?k = "takeWhile keyChar ?stem"
  let ?rest = "dropWhile keyChar ?stem"
  from assms have dr: "drop ?n frameFile = ?tail"
    and kne: "?k \<noteq> []" and rne: "?rest \<noteq> []" and hd: "hd ?rest = CHR ''/''" and key: "key = rev ?k"
    by (auto simp: filenameToKeyRe_def Let_def split: if_splits)
  from rne hd obtain rest' where rest: "?rest = CHR ''/'' # rest'" by (cases ?rest) auto
  have "?stem = ?k @ CHR ''/'' # rest'" by (metis takeWhile_dropWhile_id rest)
  then have "rev ?stem = rev (?k @ CHR ''/'' # rest')" by (rule arg_cong)
  moreover have "rev ?stem = take ?n frameFile" by (rule rev_rev_ident)
  moreover have "rev (?k @ CHR ''/'' # rest') = rev rest' @ ''/'' @ rev ?k" by simp
  ultimately have tk: "take ?n frameFile = rev rest' @ ''/'' @ key" unfolding key by metis
  have "frameFile = (rev rest' @ ''/'' @ key) @ ?tail" by (metis append_take_drop_id tk dr)
  then have "frameFile = rev rest' @ ''/'' @ key @ ''.'' @ ext" by simp
  moreover have "key \<noteq> []" using kne key by simp
  moreover have "list_all keyChar key"
    unfolding key by (simp add: list_all_iff) (metis set_takeWhileD)
  ultimately show ?thesis unfolding matchesFilenameToKeyRe_def by blast
qed

lemma intersection_set: "set (intersection xs ys) = set xs \<inter> set ys"
  by (auto simp: intersection_def)

lemma fold_fsRm:
  "fold (\<lambda>x fs. if P x then fsRm removable x fs else fs) xs files
     = files - {x \<in> set xs. P x \<and> removable x}"
  by (induction xs arbitrary: files) (auto simp: fsRm_def)

lemma cleanupOrphanedImages_eq:
  "cleanupOrphanedImages cfg removable frameFileIds frames1 frames2 files =
     files - {f. f \<in> set frames1 \<and> f \<in> set frames2 \<and> orphaned cfg frameFileIds f \<and> removable f}"
  unfolding cleanupOrphanedImages_def fold_fsRm intersection_set by auto

lemma orphaned_iff:
  "orphaned cfg frameFileIds frameFile \<longleftrightarrow>
     (\<exists>key. matchesFilenameToKeyRe (imageOutputExtension cfg) frameFile key \<and> key \<notin> set frameFileIds)"
proof
  assume "orphaned cfg frameFileIds frameFile"
  then obtain key where "filenameToKeyRe (imageOutputExtension cfg) frameFile = Some key"
    and "key \<notin> set frameFileIds"
    by (auto simp: orphaned_def split: option.splits)
  then show "\<exists>key. matchesFilenameToKeyRe (imageOutputExtension cfg) frameFile key
      \<and> key \<notin> set frameFileIds"
    using filenameToKeyRe_sound by blast
next
  assume "\<exists>key. matchesFilenameToKeyRe (imageOutputExtension cfg) frameFile key
      \<and> key \<notin> set frameFileIds"
  then obtain key where "matchesFilenameToKeyRe (imageOutputExtension cfg) frameFile key"
    and "key \<notin> set frameFileIds" by blast
  then show "orphaned cfg frameFileIds frameFile"
    using filenameToKeyRe_complete [of "imageOutputExtension cfg" frameFile key]
    by (simp add: orphaned_def)
qed

text \<open>
  The statement that a file in both listings whose id is not tracked is always deleted
  fails. The image of the untracked id \<open>g0a1b\<close>, at the path \<open>imagePathForId\<close> gives it,
  is in both listings and is still on disk after the sweep, although \<open>fs.rm\<close> would
  succeed: \<open>filenameToKeyRe\<close> only matches names made of the characters \<open>0-9\<close>, \<open>a-f\<close>
  and \<open>-\<close>, and the sweep skips every other file. A file that \<open>fs.rm\<close> cannot remove
  (the second file, with the untracked id \<open>beef\<close>) stays as well.
\<close>

theorem cleanupOrphanedImages_untracked_kept_counterexample:
  "imagePathForId exampleConfig ''g0a1b'' = ''/tmp/frames/g0a1b.webp''
   \<and> ''/tmp/frames/g0a1b.webp'' \<in> set [''/tmp/frames/g0a1b.webp'', ''/tmp/frames/beef.webp'']
   \<and> ''g0a1b'' \<notin> set [''0a1b'']
   \<and> ''/tmp/frames/g0a1b.webp'' \<in>
       cleanupOrphanedImages exampleConfig (\<lambda>_. True) [''0a1b'']
         [''/tmp/frames/g0a1b.webp'', ''/tmp/frames/beef.webp'']
         [''/tmp/frames/g0a1b.webp'', ''/tmp/frames/beef.webp'']
         {''/tmp/frames/g0a1b.webp'', ''/tmp/frames/beef.webp''}
   \<and> ''beef'' \<notin> set [''0a1b'']
   \<and> ''/tmp/frames/beef.webp'' \<in>
       cleanupOrphanedImages exampleConfig (\<lambda>path. path \<noteq> ''/tmp/frames/beef.webp'') [''0a1b'']
         [''/tmp/frames/g0a1b.webp'', ''/tmp/frames/beef.webp'']
         [''/tmp/frames/g0a1b.webp'', ''/tmp/frames/beef.webp'']
         {''/tmp/frames/g0a1b.webp'', ''/tmp/frames/beef.webp''}"
  by (simp add: cleanupOrphanedImages_eq orphaned_def filenameToKeyRe_def keyChar_def
        imagePathForId_def exampleConfig_def)

text \<open>
  C4, as amended. In the orphan sweep a file that is on disk and is missing from one of
  the two listings (or from both) is still on disk afterwards. A file that is in both
  listings is no longer on disk afterwards when its name ends in a slash, a key made of
  the characters \<open>0-9\<close>, \<open>a-f\<close> and \<open>-\<close>, a dot and the image extension (so that
  \<open>filenameToKeyRe\<close> matches it with that key), the key is not among the tracked FileState
  ids, and \<open>fs.rm\<close> succeeds on the file. A file on disk whose name \<open>filenameToKeyRe\<close> does
  not match, or on which \<open>fs.rm\<close> fails, is still on disk afterwards.
\<close>

theorem cleanupOrphanedImages_double_listing:
  "(frameFile \<in> files \<and> \<not> (frameFile \<in> set frames1 \<and> frameFile \<in> set frames2)
      \<longrightarrow> frameFile \<in> cleanupOrphanedImages cfg removable frameFileIds frames1 frames2 files)
   \<and> (frameFile \<in> set frames1 \<and> frameFile \<in> set frames2
        \<and> matchesFilenameToKeyRe (imageOutputExtension cfg) frameFile key \<and> key \<notin> set frameFileIds
        \<and> removable frameFile
      \<longrightarrow> frameFile \<notin> cleanupOrphanedImages cfg removable frameFileIds frames1 frames2 files)
   \<and> (frameFile \<in> files
        \<and> ((\<forall>k. \<not> matchesFilenameToKeyRe (imageOutputExtension cfg) frameFile k)
            \<or> \<not> removable frameFile)
      \<longrightarrow> frameFile \<in> cleanupOrphanedImages cfg removable frameFileIds frames1 frames2 files)"
  unfolding cleanupOrphanedImages_eq orphaned_iff by blast

theorem cleanupOrphanedImages_double_listing_witness:
  "''/tmp/frames/0a1b.webp'' \<in>
     cleanupOrphanedImages exampleConfig (\<lambda>_. True) [''77'']
       [''/tmp/frames/0a1b.webp'', ''/tmp/frames/2c3d.webp''] [''/tmp/frames/2c3d.webp'']
       {''/tmp/frames/0a1b.webp'', ''/tmp/frames/2c3d.webp''}
   \<and> ''/tmp/frames/2c3d.webp'' \<notin>
     cleanupOrphanedImages exampleConfig (\<lambda>_. True) [''77'']
       [''/tmp/frames/0a1b.webp'', ''/tmp/frames/2c3d.webp''] [''/tmp/frames/2c3d.webp'']
       {''/tmp/frames/0a1b.webp'', ''/tmp/frames/2c3d.webp''}
   \<and> ''/tmp/frames/2c3d.webp'' \<in>
     cleanupOrphanedImages exampleConfig (\<lambda>_. False) [''77'']
       [''/tmp/frames/0a1b.webp'', ''/tmp/frames/2c3d.webp''] [''/tmp/frames/2c3d.webp'']
       {''/tmp/frames/0a1b.webp'', ''/tmp/frames/2c3d.webp''}"
proof -
  have ext: "imageOutputExtension exampleConfig = ''webp''" by (simp add: exampleConfig_def)
  have m: "matchesFilenameToKeyRe ''webp'' ''/tmp/frames/2c3d.webp'' ''2c3d''"
    by (rule filenameToKeyRe_sound) (simp add: filenameToKeyRe_def keyChar_def)
  show ?thesis
    using m
      cleanupOrphanedImages_double_listing
        [of "''/tmp/frames/0a1b.webp''" "{''/tmp/frames/0a1b.webp'', ''/tmp/frames/2c3d.webp''}"
            "[''/tmp/frames/0a1b.webp'', ''/tmp/frames/2c3d.webp'']" "[''/tmp/frames/2c3d.webp'']"
            exampleConfig "\<lambda>_. True" "[''77'']" "''2c3d''"]
      cleanupOrphanedImages_double_listing
        [of "''/tmp/frames/2c3d.webp''" "{''/tmp/frames/0a1b.webp'', ''/tmp/frames/2c3d.webp''}"
            "[''/tmp/frames/0a1b.webp'', ''/tmp/frames/2c3d.webp'']" "[''/tmp/frames/2c3d.webp'']"
            exampleConfig "\<lambda>_. True" "[''77'']" "''2c3d''"]
      cleanupOrphanedImages_double_listing
        [of "''/tmp/frames/2c3d.webp''" "{''/tmp/frames/0a1b.webp'', ''/tmp/frames/2c3d.webp''}"
            "[''/tmp/frames/0a1b.webp'', ''/tmp/frames/2c3d.webp'']" "[''/tmp/frames/2c3d.webp'']"
            exampleConfig "\<lambda>_. False" "[''77'']" "''2c3d''"]
    by (simp add: ext)
qed


section \<open>Results about asynchronous operations\<close>

lemma fold_max_ge: "(t::nat) \<le> fold max xs t"
  by (induction xs arbitrary: t) (auto intro: order_trans [OF max.cobounded2])

lemma fold_max_mem: "x \<in> set xs \<Longrightarrow> (x::nat) \<le> fold max xs t"
proof (induction xs arbitrary: t)
  case Nil
  then show ?case by simp
next
  case (Cons y ys)
  show ?case
  proof (cases "x = y")
    case True
    have "max y t \<le> fold max ys (max y t)" by (rule fold_max_ge)
    then show ?thesis using True by simp
  next
    case False
    then show ?thesis using Cons by simp
  qed
qed

lemma promiseAll_fulfilled:
  "fulfilled (promiseAll t ps) \<Longrightarrow> p \<in> set ps \<Longrightarrow>
   fulfilled p \<and> settledAt p \<le> settledAt (promiseAll t ps)"
  by (auto simp: promiseAll_def list_all_iff fold_max_mem split: if_splits)

section \<open>Results about the two listings of the image sweep\<close>

text \<open>
  The statement that the second listing cannot start before the first has completed fails:
  a first \<open>glob\<close> that takes 1500 ms is still running when the timer issues the second
  one, 1000 ms after the first was issued.
\<close>

theorem second_listing_before_first_completes_counterexample:
  "\<not> settledAt (firstListing (cleanupOrphanedAndExpiredImages exampleConfig
        \<lparr>getKeysTook = 1, glob1Took = 1500, glob2Took = 20, timerLag = 0, frameKeys = [],
          listing1 = [], listing2 = [], imageClock = (\<lambda>_. 0),
          rmSucceeds = (\<lambda>_. True)\<rparr> 0 Map.empty {}))
     \<le> issuedAt (secondListing (cleanupOrphanedAndExpiredImages exampleConfig
        \<lparr>getKeysTook = 1, glob1Took = 1500, glob2Took = 20, timerLag = 0, frameKeys = [],
          listing1 = [], listing2 = [], imageClock = (\<lambda>_. 0),
          rmSucceeds = (\<lambda>_. True)\<rparr> 0 Map.empty {}))"
  by (simp add: cleanupOrphanedAndExpiredImages_def start_def reliable_def Let_def)

text \<open>
  C5, as amended. In every image sweep the second listing is issued at least 1000 ms
  after the first listing was issued, and both listings have completed when the two
  cleanups start. The code does not wait for the first listing before it issues the
  second: the second listing is issued after the first has completed exactly when the
  first listing takes no longer than the timer (1000 ms, and the time by which the timer
  is late), so in particular whenever the first listing takes at most 1000 ms.
\<close>

theorem listings_one_second_apart:
  "issuedAt (firstListing (cleanupOrphanedAndExpiredImages cfg env t0 frames files)) + 1000
     \<le> issuedAt (secondListing (cleanupOrphanedAndExpiredImages cfg env t0 frames files))
   \<and> settledAt (firstListing (cleanupOrphanedAndExpiredImages cfg env t0 frames files))
     \<le> cleanupStartedAt (cleanupOrphanedAndExpiredImages cfg env t0 frames files)
   \<and> settledAt (secondListing (cleanupOrphanedAndExpiredImages cfg env t0 frames files))
     \<le> cleanupStartedAt (cleanupOrphanedAndExpiredImages cfg env t0 frames files)
   \<and> (settledAt (firstListing (cleanupOrphanedAndExpiredImages cfg env t0 frames files))
         \<le> issuedAt (secondListing (cleanupOrphanedAndExpiredImages cfg env t0 frames files)))
       = (glob1Took env \<le> 1000 + timerLag env)
   \<and> (glob1Took env \<le> 1000 \<longrightarrow>
       settledAt (firstListing (cleanupOrphanedAndExpiredImages cfg env t0 frames files))
         \<le> issuedAt (secondListing (cleanupOrphanedAndExpiredImages cfg env t0 frames files)))"
  by (simp add: cleanupOrphanedAndExpiredImages_def start_def reliable_def Let_def promiseAll_def)

theorem listings_one_second_apart_witness:
  "issuedAt (firstListing (cleanupOrphanedAndExpiredImages exampleConfig
        \<lparr>getKeysTook = 1, glob1Took = 30, glob2Took = 20, timerLag = 2, frameKeys = [],
          listing1 = [], listing2 = [], imageClock = (\<lambda>_. 0),
          rmSucceeds = (\<lambda>_. True)\<rparr> 7 Map.empty {})) + 1000
     \<le> issuedAt (secondListing (cleanupOrphanedAndExpiredImages exampleConfig
        \<lparr>getKeysTook = 1, glob1Took = 30, glob2Took = 20, timerLag = 2, frameKeys = [],
          listing1 = [], listing2 = [], imageClock = (\<lambda>_. 0),
          rmSucceeds = (\<lambda>_. True)\<rparr> 7 Map.empty {}))
   \<and> settledAt (firstListing (cleanupOrphanedAndExpiredImages exampleConfig
        \<lparr>getKeysTook = 1, glob1Took = 30, glob2Took = 20, timerLag = 2, frameKeys = [],
          listing1 = [], listing2 = [], imageClock = (\<lambda>_. 0),
          rmSucceeds = (\<lambda>_. True)\<rparr> 7 Map.empty {}))
     \<le> issuedAt (secondListing (cleanupOrphanedAndExpiredImages exampleConfig
        \<lparr>getKeysTook = 1, glob1Took = 30, glob2Took = 20, timerLag = 2, frameKeys = [],
          listing1 = [], listing2 = [], imageClock = (\<lambda>_. 0),
          rmSucceeds = (\<lambda>_. True)\<rparr> 7 Map.empty {}))"
  using listings_one_second_apart
    [of exampleConfig
        "\<lparr>getKeysTook = 1, glob1Took = 30, glob2Took = 20, timerLag = 2, frameKeys = [],
          listing1 = [], listing2 = [], imageClock = (\<lambda>_. 0),
          rmSucceeds = (\<lambda>_. True)\<rparr>" 7 Map.empty "{}"]
  by simp

section \<open>Results about the cleanup of expired runs\<close>

lemma fold_applyRunWrite_runState:
  "runState (fold applyRunWrite ws s) k = (if RemoveRun k \<in> set ws then None else runState s k)"
proof (induction ws arbitrary: s)
  case Nil
  then show ?case by simp
next
  case (Cons w ws)
  show ?case by (cases w) (simp_all add: Cons.IH)
qed

lemma fold_applyRunWrite_archivedRun:
  "(\<And>v'. ArchiveRun k v' \<in> set ws \<Longrightarrow> v' = v) \<Longrightarrow>
   archivedRun (fold applyRunWrite ws s) k
     = (if ArchiveRun k v \<in> set ws then Some v else archivedRun s k)"
proof (induction ws arbitrary: s)
  case Nil
  then show ?case by simp
next
  case (Cons w ws)
  have IH: "\<And>s'. archivedRun (fold applyRunWrite ws s') k
     = (if ArchiveRun k v \<in> set ws then Some v else archivedRun s' k)"
    using Cons.IH Cons.prems by simp
  show ?case
  proof (cases w)
    case (RemoveRun r)
    then show ?thesis by (simp add: IH)
  next
    case (ArchiveRun r d)
    then show ?thesis using Cons.prems [of d] by (auto simp: IH)
  qed
qed

lemma cleanupExpiredRun_writes:
  "map snd (cleanupExpiredRun cfg env runs t k) =
     (case runs k of
        None \<Rightarrow> []
      | Some data \<Rightarrow>
          if runExpired (runClock env k) data
          then RemoveRun k #
                 (if runRetentionThreshold cfg \<le> int (length (history data))
                  then [ArchiveRun k (data\<lparr>expiryTs := None\<rparr>)] else [])
          else [])"
  by (simp add: cleanupExpiredRun_def Let_def split: option.splits)

lemma cleanupExpiredRun_fulfilled:
  "pw \<in> set (cleanupExpiredRun cfg env runs t k) \<Longrightarrow> fulfilled (fst pw)"
  by (auto simp: cleanupExpiredRun_def Let_def start_def reliable_def split: option.splits if_splits)

lemma cleanupExpiredRuns_set:
  "snd ` set (cleanupExpiredRuns cfg env keys runs t0) =
     (\<Union>k\<in>set keys. set (map snd (cleanupExpiredRun cfg env runs (t0 + runKeysTook env) k)))"
  by (auto simp: cleanupExpiredRuns_def start_def reliable_def image_iff)

lemma cleanupExpiredRuns_removes:
  assumes "k \<in> set keys" and "runs k = Some data" and "runExpired (runClock env k) data"
  shows "RemoveRun k \<in> snd ` set (cleanupExpiredRuns cfg env keys runs t0)"
  unfolding cleanupExpiredRuns_set cleanupExpiredRun_writes using assms by force

lemma cleanupExpiredRuns_archives:
  assumes "k \<in> set keys" and "runs k = Some data" and "runExpired (runClock env k) data"
    and "runRetentionThreshold cfg \<le> int (length (history data))"
  shows "ArchiveRun k (data\<lparr>expiryTs := None\<rparr>) \<in> snd ` set (cleanupExpiredRuns cfg env keys runs t0)"
  unfolding cleanupExpiredRuns_set cleanupExpiredRun_writes using assms by force

lemma cleanupExpiredRuns_archived:
  assumes "ArchiveRun k v \<in> snd ` set (cleanupExpiredRuns cfg env keys runs t0)"
  shows "\<exists>data. runs k = Some data \<and> runRetentionThreshold cfg \<le> int (length (history data))
           \<and> v = data\<lparr>expiryTs := None\<rparr>"
proof -
  from assms obtain j where "j \<in> set keys"
    and mem: "ArchiveRun k v \<in> set (map snd (cleanupExpiredRun cfg env runs (t0 + runKeysTook env) j))"
    unfolding cleanupExpiredRuns_set by blast
  then show ?thesis
    unfolding cleanupExpiredRun_writes by (cases "runs j") (auto split: if_splits)
qed

lemma cleanupExpiredRuns_fulfilled:
  "pw \<in> set (cleanupExpiredRuns cfg env keys runs t0) \<Longrightarrow> fulfilled (fst pw)"
  by (auto simp: cleanupExpiredRuns_def dest: cleanupExpiredRun_fulfilled)

lemma storesAt_settled:
  assumes "sweepDoneAt t0 work \<le> t" and "\<And>pw. pw \<in> set work \<Longrightarrow> fulfilled (fst pw)"
  shows "storesAt t work s = fold applyRunWrite (map snd (sort_key (\<lambda>pw. settledAt (fst pw)) work)) s"
proof -
  have all: "fulfilled (promiseAll t0 (map fst work))"
    using assms(2) by (auto simp: promiseAll_def list_all_iff)
  have "\<And>pw. pw \<in> set work \<Longrightarrow> settledAt (fst pw) \<le> t"
  proof -
    fix pw assume "pw \<in> set work"
    then have "fst pw \<in> set (map fst work)" by simp
    then have "settledAt (fst pw) \<le> sweepDoneAt t0 work"
      unfolding sweepDoneAt_def using promiseAll_fulfilled [OF all] by blast
    then show "settledAt (fst pw) \<le> t" using assms(1) by simp
  qed
  then have "filter (\<lambda>pw. settledAt (fst pw) \<le> t) work = work" by (simp add: filter_id_conv)
  then show ?thesis by (simp add: storesAt_def)
qed

lemma cleanupExpiredRun_issued:
  "pw \<in> set (cleanupExpiredRun cfg env runs t j) \<Longrightarrow>
   issuedAt (fst pw) = t + getRunTook env j \<and> (snd pw = RemoveRun j \<or> (\<exists>d. snd pw = ArchiveRun j d))"
  by (auto simp: cleanupExpiredRun_def Let_def start_def reliable_def split: option.splits if_splits)

lemma cleanupExpiredRuns_issued:
  assumes "(p, w) \<in> set (cleanupExpiredRuns cfg env keys runs t0)"
    and "w = RemoveRun k \<or> w = ArchiveRun k v"
  shows "issuedAt p = t0 + runKeysTook env + getRunTook env k"
proof -
  from assms(1) obtain j where
    mem: "(p, w) \<in> set (cleanupExpiredRun cfg env runs (t0 + runKeysTook env) j)"
    by (auto simp: cleanupExpiredRuns_def start_def reliable_def)
  from cleanupExpiredRun_issued [OF mem] assms(2) have "j = k" by auto
  with cleanupExpiredRun_issued [OF mem] show ?thesis by simp
qed

text \<open>
  The statement that an important run is re-persisted into the archival store before its
  live copy is deleted fails: the removal is issued first and both writes are awaited
  together, so when the removal settles before the archival write (here after 1 ms and
  after 10 ms), the run is for a while in neither store.
\<close>

theorem cleanupExpiredRuns_archive_order_counterexample:
  "runState (storesAt 5
      (cleanupExpiredRuns exampleConfig exampleRunEnv [''r1''] [''r1'' \<mapsto> exampleRun] 0)
      \<lparr>runState = [''r1'' \<mapsto> exampleRun], archivedRun = Map.empty\<rparr>) ''r1'' = None
   \<and> archivedRun (storesAt 5
      (cleanupExpiredRuns exampleConfig exampleRunEnv [''r1''] [''r1'' \<mapsto> exampleRun] 0)
      \<lparr>runState = [''r1'' \<mapsto> exampleRun], archivedRun = Map.empty\<rparr>) ''r1'' = None"
  by (simp add: storesAt_def cleanupExpiredRuns_def cleanupExpiredRun_def runExpired_def
        start_def reliable_def Let_def exampleConfig_def exampleRunEnv_def exampleRun_def)

text \<open>
  C8, as amended. Let \<open>k\<close> be a key of the live run store whose run has an unset expiry
  (\<open>null\<close>, or the falsy \<open>0\<close>) or an expiry smaller than the time its callback reads.
  Once the sweep has awaited all its writes, the run is gone from the live store; if its
  history length meets or exceeds the retention threshold, the archival store holds it
  under \<open>k\<close> with its expiry cleared to \<open>null\<close>, and otherwise the archival store is
  unchanged at \<open>k\<close>: the run is dropped. The removal and the archival write of a run
  are issued at the same time and awaited together; neither is ordered before the
  other.
\<close>

theorem cleanupExpiredRuns_final_state:
  assumes "k \<in> set keys" and "runs k = Some data"
    and "\<not> truthy (expiryTs data) \<or> the (expiryTs data) < runClock env k"
    and "sweepDoneAt t0 (cleanupExpiredRuns cfg env keys runs t0) \<le> t"
  shows "runState (storesAt t (cleanupExpiredRuns cfg env keys runs t0)
                     \<lparr>runState = runs, archivedRun = archive\<rparr>) k = None
       \<and> archivedRun (storesAt t (cleanupExpiredRuns cfg env keys runs t0)
                     \<lparr>runState = runs, archivedRun = archive\<rparr>) k =
           (if runRetentionThreshold cfg \<le> int (length (history data))
            then Some (data\<lparr>expiryTs := None\<rparr>) else archive k)
       \<and> (\<forall>p q v. (p, RemoveRun k) \<in> set (cleanupExpiredRuns cfg env keys runs t0)
                  \<and> (q, ArchiveRun k v) \<in> set (cleanupExpiredRuns cfg env keys runs t0)
                \<longrightarrow> issuedAt p = issuedAt q)"
proof -
  let ?work = "cleanupExpiredRuns cfg env keys runs t0"
  let ?ws = "map snd (sort_key (\<lambda>pw. settledAt (fst pw)) ?work)"
  let ?s0 = "\<lparr>runState = runs, archivedRun = archive\<rparr>"
  have expired: "runExpired (runClock env k) data"
    using assms(3) by (auto simp: runExpired_def truthy_def split: option.splits)
  have at: "storesAt t ?work ?s0 = fold applyRunWrite ?ws ?s0"
    using assms(4) cleanupExpiredRuns_fulfilled by (rule storesAt_settled)
  have ws: "set ?ws = snd ` set ?work" by simp
  have "RemoveRun k \<in> set ?ws"
    unfolding ws using assms(1,2) expired by (rule cleanupExpiredRuns_removes)
  then have live: "runState (fold applyRunWrite ?ws ?s0) k = None"
    by (simp add: fold_applyRunWrite_runState)
  have uniq: "\<And>v'. ArchiveRun k v' \<in> set ?ws \<Longrightarrow> v' = data\<lparr>expiryTs := None\<rparr>"
    unfolding ws using cleanupExpiredRuns_archived [of k _ cfg env keys runs t0] assms(2) by auto
  have arch: "archivedRun (fold applyRunWrite ?ws ?s0) k
      = (if ArchiveRun k (data\<lparr>expiryTs := None\<rparr>) \<in> set ?ws
         then Some (data\<lparr>expiryTs := None\<rparr>) else archivedRun ?s0 k)"
    using uniq by (rule fold_applyRunWrite_archivedRun)
  have mem: "ArchiveRun k (data\<lparr>expiryTs := None\<rparr>) \<in> set ?ws
      \<longleftrightarrow> runRetentionThreshold cfg \<le> int (length (history data))"
    unfolding ws
    using cleanupExpiredRuns_archives [of k keys runs data env cfg t0] assms(1,2) expired
      cleanupExpiredRuns_archived [of k "data\<lparr>expiryTs := None\<rparr>" cfg env keys runs t0]
    by auto
  have together: "\<forall>p q v. (p, RemoveRun k) \<in> set ?work \<and> (q, ArchiveRun k v) \<in> set ?work
                \<longrightarrow> issuedAt p = issuedAt q"
    using cleanupExpiredRuns_issued [of _ _ cfg env keys runs t0 k] by metis
  show ?thesis unfolding at using live arch mem together by simp
qed


theorem cleanupExpiredRuns_final_state_witness:
  "runState (storesAt 20
      (cleanupExpiredRuns exampleConfig exampleRunEnv [''r1''] [''r1'' \<mapsto> exampleRun] 0)
      \<lparr>runState = [''r1'' \<mapsto> exampleRun], archivedRun = Map.empty\<rparr>) ''r1'' = None
   \<and> archivedRun (storesAt 20
      (cleanupExpiredRuns exampleConfig exampleRunEnv [''r1''] [''r1'' \<mapsto> exampleRun] 0)
      \<lparr>runState = [''r1'' \<mapsto> exampleRun], archivedRun = Map.empty\<rparr>) ''r1''
       = Some \<lparr>expiryTs = None, history = replicate 10 ''frame''\<rparr>"
  using cleanupExpiredRuns_final_state
    [of "''r1''" "[''r1'']" "[''r1'' \<mapsto> exampleRun]" exampleRun exampleRunEnv 0 exampleConfig
        20 Map.empty]
  by (simp add: sweepDoneAt_def promiseAll_def cleanupExpiredRuns_def cleanupExpiredRun_def
        runExpired_def start_def reliable_def Let_def truthy_def
        exampleConfig_def exampleRunEnv_def exampleRun_def)

section \<open>Results about the quality gate\<close>

declare ffmpegLoop.simps [simp del]

lemma ffmpegLoop_retry:
  "retry cfg env t (rejected0 + 1) \<Longrightarrow>
   ffmpegLoop cfg env t rejected0 procs =
     ffmpegLoop cfg env
       (settledAt (start (settledAt (start t (ffmpegRun env (nat (rejected0 + 1)))))
                     (identifyRun env (nat (rejected0 + 1)))))
       (rejected0 + 1) (procs @ [start t (ffmpegRun env (nat (rejected0 + 1)))])"
  by (subst ffmpegLoop.simps) (simp add: retry_def Let_def)

lemma ffmpegLoop_stop:
  "\<not> retry cfg env t (rejected0 + 1) \<Longrightarrow>
   rejected (ffmpegLoop cfg env t rejected0 procs) = rejected0 + 1
   \<and> extractions (ffmpegLoop cfg env t rejected0 procs)
       = procs @ [start t (ffmpegRun env (nat (rejected0 + 1)))]
   \<and> (\<forall>e. outcome (ffmpegLoop cfg env t rejected0 procs) = Inr e \<longrightarrow>
          e = chooseFrame env (nat (rejected0 + 1)))"
  by (subst (1 2 3) ffmpegLoop.simps) (auto simp: retry_def Let_def split: option.splits)

lemma ffmpegLoop_bounds:
  "rejected0 < rejected (ffmpegLoop cfg env t rejected0 procs)
   \<and> rejected (ffmpegLoop cfg env t rejected0 procs) \<le> max (rejected0 + 1) (frameGenMaxAttempts cfg)
   \<and> int (length (extractions (ffmpegLoop cfg env t rejected0 procs)))
        = int (length procs) + (rejected (ffmpegLoop cfg env t rejected0 procs) - rejected0)
   \<and> (\<forall>e. outcome (ffmpegLoop cfg env t rejected0 procs) = Inr e \<longrightarrow>
          e = chooseFrame env (nat (rejected (ffmpegLoop cfg env t rejected0 procs))))"
proof (induction cfg env t rejected0 procs rule: ffmpegLoop.induct)
  case (1 cfg env t rejected0 procs)
  show ?case
  proof (cases "retry cfg env t (rejected0 + 1)")
    case True
    note eq = ffmpegLoop_retry [OF True, of procs]
    have small: "rejected0 + 1 < frameGenMaxAttempts cfg" using True by (simp add: retry_def)
    have IH: "rejected0 + 1 < rejected (ffmpegLoop cfg env t rejected0 procs)
       \<and> rejected (ffmpegLoop cfg env t rejected0 procs)
           \<le> max (rejected0 + 1 + 1) (frameGenMaxAttempts cfg)
       \<and> int (length (extractions (ffmpegLoop cfg env t rejected0 procs)))
           = int (length (procs @ [start t (ffmpegRun env (nat (rejected0 + 1)))]))
             + (rejected (ffmpegLoop cfg env t rejected0 procs) - (rejected0 + 1))
       \<and> (\<forall>e. outcome (ffmpegLoop cfg env t rejected0 procs) = Inr e \<longrightarrow>
              e = chooseFrame env (nat (rejected (ffmpegLoop cfg env t rejected0 procs))))"
      unfolding eq using True unfolding retry_def by (intro "1.IH") auto
    then show ?thesis using small by auto
  next
    case False
    from ffmpegLoop_stop [OF False, of procs] show ?thesis by simp
  qed
qed


lemma ffmpegLoop_exhausts:
  assumes "\<And>k. succeeds (ffmpegRun env k) \<and> succeeds (identifyRun env k)
               \<and> (\<exists>sd. identifyStddev env k = Some sd \<and> sd < frameRequiredStandardDeviation cfg)"
    and "0 < frameRequiredStandardDeviation cfg"
  shows "rejected (ffmpegLoop cfg env t rejected0 procs) = max (rejected0 + 1) (frameGenMaxAttempts cfg)
     \<and> outcome (ffmpegLoop cfg env t rejected0 procs)
         = Inr (chooseFrame env (nat (max (rejected0 + 1) (frameGenMaxAttempts cfg))))"
  using assms
proof (induction cfg env t rejected0 procs rule: ffmpegLoop.induct)
  case (1 cfg env t rejected0 procs)
  have always: "\<And>k. succeeds (ffmpegRun env k)" "\<And>k. succeeds (identifyRun env k)"
    "\<And>k. \<exists>sd. identifyStddev env k = Some sd \<and> sd < frameRequiredStandardDeviation cfg"
    using "1.prems"(1) by blast+
  have retry_iff: "retry cfg env t (rejected0 + 1) \<longleftrightarrow> rejected0 + 1 < frameGenMaxAttempts cfg"
    using always(1,2) always(3) [of "nat (rejected0 + 1)"] "1.prems"(2)
    by (auto simp: retry_def start_def)
  show ?case
  proof (cases "retry cfg env t (rejected0 + 1)")
    case True
    note eq = ffmpegLoop_retry [OF True, of procs]
    have small: "rejected0 + 1 < frameGenMaxAttempts cfg" using True retry_iff by simp
    have IH: "rejected (ffmpegLoop cfg env t rejected0 procs)
          = max (rejected0 + 1 + 1) (frameGenMaxAttempts cfg)
       \<and> outcome (ffmpegLoop cfg env t rejected0 procs)
          = Inr (chooseFrame env (nat (max (rejected0 + 1 + 1) (frameGenMaxAttempts cfg))))"
      unfolding eq using True "1.prems" unfolding retry_def by (intro "1.IH") auto
    then show ?thesis using small by (simp add: max_def)
  next
    case False
    then have big: "frameGenMaxAttempts cfg \<le> rejected0 + 1" using retry_iff by simp
    have "outcome (ffmpegLoop cfg env t rejected0 procs) = Inr (chooseFrame env (nat (rejected0 + 1)))"
      using big always(1) by (subst ffmpegLoop.simps) (simp add: Let_def start_def)
    then show ?thesis using ffmpegLoop_stop [OF False, of procs] big by (simp add: max_def)
  qed
qed

lemma ffmpegLoop_first:
  "\<exists>more. extractions (ffmpegLoop cfg env t rejected0 procs)
            = procs @ start t (ffmpegRun env (nat (rejected0 + 1))) # more"
proof (induction cfg env t rejected0 procs rule: ffmpegLoop.induct)
  case (1 cfg env t rejected0 procs)
  show ?case
  proof (cases "retry cfg env t (rejected0 + 1)")
    case True
    note eq = ffmpegLoop_retry [OF True, of procs]
    have "\<exists>more. extractions (ffmpegLoop cfg env t rejected0 procs)
            = (procs @ [start t (ffmpegRun env (nat (rejected0 + 1)))])
              @ start (settledAt (start (settledAt (start t (ffmpegRun env (nat (rejected0 + 1)))))
                     (identifyRun env (nat (rejected0 + 1)))))
                  (ffmpegRun env (nat (rejected0 + 1 + 1))) # more"
      unfolding eq using True unfolding retry_def by (intro "1.IH") auto
    then show ?thesis by auto
  next
    case False
    from ffmpegLoop_stop [OF False, of procs] show ?thesis by simp
  qed
qed

lemma ffmpegLoop_later:
  "t0 \<le> t \<Longrightarrow> list_all (\<lambda>p. t0 \<le> issuedAt p) procs \<Longrightarrow>
   list_all (\<lambda>p. t0 \<le> issuedAt p) (extractions (ffmpegLoop cfg env t rejected0 procs))
   \<and> t0 \<le> finishedAt (ffmpegLoop cfg env t rejected0 procs)"
proof (induction cfg env t rejected0 procs rule: ffmpegLoop.induct)
  case (1 cfg env t rejected0 procs)
  show ?case
  proof (cases "retry cfg env t (rejected0 + 1)")
    case True
    note eq = ffmpegLoop_retry [OF True, of procs]
    show ?thesis
      unfolding eq using True "1.prems" unfolding retry_def
      by (intro "1.IH") (auto simp: start_def)
  next
    case False
    have "t0 \<le> finishedAt (ffmpegLoop cfg env t rejected0 procs)"
      using "1.prems"(1) False
      by (subst ffmpegLoop.simps) (auto simp: Let_def start_def retry_def split: option.splits)
    then show ?thesis
      using ffmpegLoop_stop [OF False, of procs] "1.prems" by (simp add: start_def)
  qed
qed

text \<open>
  C7. \<open>ffmpegLoop\<close> is a total function: the loop ends for every configuration and
  every behaviour of the subprocesses (that settle). When \<open>ffmpegFrame\<close> has ended, its
  counter \<open>rejected\<close>, the number of frames it rejected and re-sought, is at most the
  configured maximum (\<open>frameGenMaxAttempts\<close>, or \<open>0\<close> when that is negative); it ran ffmpeg
  once more than it rejected; and a frame it returns is the last one it chose. With a
  minimum standard deviation configured, if every extracted frame is below the threshold
  (and no subprocess fails), it stops after exactly the maximum number of rejections and
  returns the last frame it extracted all the same.
\<close>

theorem ffmpegFrame_bounded_rejections:
  "0 \<le> rejected (ffmpegFrame cfg env outputPath t)
   \<and> rejected (ffmpegFrame cfg env outputPath t) \<le> max 0 (frameGenMaxAttempts cfg)
   \<and> int (length (extractions (ffmpegFrame cfg env outputPath t)))
        = rejected (ffmpegFrame cfg env outputPath t) + 1
   \<and> (\<forall>e. outcome (ffmpegFrame cfg env outputPath t) = Inr e \<longrightarrow>
          e = chooseFrame env (nat (rejected (ffmpegFrame cfg env outputPath t))))
   \<and> (0 < frameRequiredStandardDeviation cfg
       \<and> (\<forall>k. succeeds (ffmpegRun env k) \<and> succeeds (identifyRun env k)
               \<and> (\<exists>sd. identifyStddev env k = Some sd \<and> sd < frameRequiredStandardDeviation cfg))
      \<longrightarrow> rejected (ffmpegFrame cfg env outputPath t) = max 0 (frameGenMaxAttempts cfg)
          \<and> outcome (ffmpegFrame cfg env outputPath t)
              = Inr (chooseFrame env (nat (max 0 (frameGenMaxAttempts cfg)))))"
proof -
  have "0 \<le> rejected (ffmpegFrame cfg env outputPath t)
   \<and> rejected (ffmpegFrame cfg env outputPath t) \<le> max 0 (frameGenMaxAttempts cfg)
   \<and> int (length (extractions (ffmpegFrame cfg env outputPath t)))
        = rejected (ffmpegFrame cfg env outputPath t) + 1
   \<and> (\<forall>e. outcome (ffmpegFrame cfg env outputPath t) = Inr e \<longrightarrow>
          e = chooseFrame env (nat (rejected (ffmpegFrame cfg env outputPath t))))"
    using ffmpegLoop_bounds [of "- 1" cfg env t "[]"] by (simp add: ffmpegFrame_def)
  moreover have "rejected (ffmpegFrame cfg env outputPath t) = max 0 (frameGenMaxAttempts cfg)
          \<and> outcome (ffmpegFrame cfg env outputPath t)
              = Inr (chooseFrame env (nat (max 0 (frameGenMaxAttempts cfg))))"
    if "0 < frameRequiredStandardDeviation cfg"
      and "\<forall>k. succeeds (ffmpegRun env k) \<and> succeeds (identifyRun env k)
               \<and> (\<exists>sd. identifyStddev env k = Some sd \<and> sd < frameRequiredStandardDeviation cfg)"
    using ffmpegLoop_exhausts [of env cfg t "- 1" "[]"] that by (simp add: ffmpegFrame_def)
  ultimately show ?thesis by blast
qed

theorem ffmpegFrame_bounded_rejections_witness:
  "rejected (ffmpegFrame exampleConfig exampleGenEnv ''/tmp/frames/0a1b.webp'' 0) = 2
   \<and> outcome (ffmpegFrame exampleConfig exampleGenEnv ''/tmp/frames/0a1b.webp'' 0)
       = Inr \<lparr>chosenEpisode = \<lparr>season_number = 1, episode_number = 2, filename = ''s01e02.mkv''\<rparr>,
              chosenSeekTime = 2\<rparr>
   \<and> length (extractions (ffmpegFrame exampleConfig exampleGenEnv ''/tmp/frames/0a1b.webp'' 0)) = 3"
proof -
  have cfg: "frameGenMaxAttempts exampleConfig = 2" "frameRequiredStandardDeviation exampleConfig = 10"
    by (simp_all add: exampleConfig_def)
  have env: "\<And>k. succeeds (ffmpegRun exampleGenEnv k)" "\<And>k. succeeds (identifyRun exampleGenEnv k)"
    "\<And>k. identifyStddev exampleGenEnv k = Some 3"
    "chooseFrame exampleGenEnv 2
       = \<lparr>chosenEpisode = \<lparr>season_number = 1, episode_number = 2, filename = ''s01e02.mkv''\<rparr>,
          chosenSeekTime = 2\<rparr>"
    by (simp_all add: exampleGenEnv_def reliable_def)
  show ?thesis
    using ffmpegFrame_bounded_rejections [of exampleConfig exampleGenEnv "''/tmp/frames/0a1b.webp''" 0]
    by (simp add: cfg env)
qed

section \<open>Results about frame generation\<close>

lemma ffmpegFrame_first:
  "\<exists>more. extractions (ffmpegFrame cfg env outputPath t) = start t (ffmpegRun env 0) # more"
  using ffmpegLoop_first [of cfg env t "- 1" "[]"] by (simp add: ffmpegFrame_def)

lemma generateFrame_frame:
  "frame (generateFrame cfg env t0) = ffmpegFrame cfg env (imagePathForId cfg (uuid env)) t0"
  by (simp add: generateFrame_def Let_def split: sum.splits)

lemma generateFrame_storeImageIdP:
  "storeImageIdP (generateFrame cfg env t0) = start t0 (storeFileState env)
   \<and> fileStateWritten (generateFrame cfg env t0) = (uuid env, \<lparr>expiryTs = None\<rparr>)"
  by (simp add: generateFrame_def Let_def split: sum.splits)

lemma generateFrame_success:
  assumes "result (generateFrame cfg env t0) = Inr item"
  shows "item = ImageId (uuid env)
     \<and> fulfilled (storeImageIdP (generateFrame cfg env t0))
     \<and> settledAt (storeImageIdP (generateFrame cfg env t0)) \<le> returnedAt (generateFrame cfg env t0)
     \<and> (\<exists>p random. answerP (generateFrame cfg env t0) = Some p \<and> fulfilled p
           \<and> settledAt p \<le> returnedAt (generateFrame cfg env t0)
           \<and> outcome (frame (generateFrame cfg env t0)) = Inr random
           \<and> answerWritten (generateFrame cfg env t0)
               = Some (uuid env,
                       \<lparr>expiryTs = None, season = season_number (chosenEpisode random),
                        episode = episode_number (chosenEpisode random),
                        seekTime = chosenSeekTime random\<rparr>))"
proof (cases "outcome (ffmpegFrame cfg env (imagePathForId cfg (uuid env)) t0)")
  case (Inl e)
  then show ?thesis using assms by (simp add: generateFrame_def Let_def)
next
  case (Inr random)
  let ?run = "ffmpegFrame cfg env (imagePathForId cfg (uuid env)) t0"
  let ?a = "start (finishedAt ?run) (storeAnswer env)"
  let ?f = "start t0 (storeFileState env)"
  let ?all = "promiseAll (finishedAt ?run) [?a, ?f]"
  have ok: "fulfilled ?all" and item: "item = ImageId (uuid env)"
    using assms Inr by (auto simp: generateFrame_def Let_def split: if_splits)
  have "fulfilled ?a \<and> settledAt ?a \<le> settledAt ?all"
    using promiseAll_fulfilled [OF ok, of ?a] by simp
  moreover have "fulfilled ?f \<and> settledAt ?f \<le> settledAt ?all"
    using promiseAll_fulfilled [OF ok, of ?f] by simp
  ultimately show ?thesis using Inr item by (simp add: generateFrame_def Let_def)
qed

text \<open>
  C1. When \<open>generateFrame\<close> returns an item, the item is \<open>{ imageId }\<close> for the id of this
  generation, and at the time of the return both writes have settled with success: the
  answer storage holds, under that id, the season, the episode and the seek time of the
  frame \<open>ffmpegFrame\<close> returned, with a \<open>null\<close> expiry, and the frame-state storage holds the
  FileState with a \<open>null\<close> expiry.
\<close>

theorem generateFrame_writes_completed:
  assumes "result (generateFrame cfg env t0) = Inr item"
  shows "item = ImageId (uuid env)
     \<and> (\<exists>random. outcome (frame (generateFrame cfg env t0)) = Inr random
          \<and> answersAt (generateFrame cfg env t0) (returnedAt (generateFrame cfg env t0)) answers
               (uuid env)
              = Some \<lparr>expiryTs = None, season = season_number (chosenEpisode random),
                      episode = episode_number (chosenEpisode random),
                      seekTime = chosenSeekTime random\<rparr>)
     \<and> frameStateAt (generateFrame cfg env t0) (returnedAt (generateFrame cfg env t0)) frames
          (uuid env) = Some \<lparr>expiryTs = None\<rparr>
     \<and> (\<exists>p. answerP (generateFrame cfg env t0) = Some p \<and> fulfilled p
           \<and> settledAt p \<le> returnedAt (generateFrame cfg env t0))
     \<and> fulfilled (storeImageIdP (generateFrame cfg env t0))
     \<and> settledAt (storeImageIdP (generateFrame cfg env t0)) \<le> returnedAt (generateFrame cfg env t0)"
  using generateFrame_success [OF assms] generateFrame_storeImageIdP [of cfg env t0]
  by (auto simp: answersAt_def frameStateAt_def)

lemma example_outcome:
  "outcome (ffmpegFrame exampleConfig exampleGenEnv outputPath 0)
     = Inr \<lparr>chosenEpisode = \<lparr>season_number = 1, episode_number = 2, filename = ''s01e02.mkv''\<rparr>,
            chosenSeekTime = 2\<rparr>"
proof -
  have "\<And>k. succeeds (ffmpegRun exampleGenEnv k) \<and> succeeds (identifyRun exampleGenEnv k)
          \<and> (\<exists>sd. identifyStddev exampleGenEnv k = Some sd
                \<and> sd < frameRequiredStandardDeviation exampleConfig)"
    by (simp add: exampleGenEnv_def exampleConfig_def reliable_def)
  moreover have "0 < frameRequiredStandardDeviation exampleConfig"
    by (simp add: exampleConfig_def)
  ultimately have "outcome (ffmpegLoop exampleConfig exampleGenEnv 0 (- 1) [])
      = Inr (chooseFrame exampleGenEnv (nat (max (- 1 + 1) (frameGenMaxAttempts exampleConfig))))"
    using ffmpegLoop_exhausts [of exampleGenEnv exampleConfig 0 "- 1" "[]"] by blast
  then show ?thesis by (simp add: ffmpegFrame_def exampleGenEnv_def exampleConfig_def)
qed

lemma example_result:
  "result (generateFrame exampleConfig exampleGenEnv 0) = Inr (ImageId ''0a1b'')"
  using example_outcome [of "imagePathForId exampleConfig ''0a1b''"]
  by (simp add: generateFrame_def Let_def promiseAll_def start_def reliable_def exampleGenEnv_def)

theorem generateFrame_writes_completed_witness:
  "result (generateFrame exampleConfig exampleGenEnv 0) = Inr (ImageId ''0a1b'')
   \<and> answersAt (generateFrame exampleConfig exampleGenEnv 0)
        (returnedAt (generateFrame exampleConfig exampleGenEnv 0)) Map.empty ''0a1b''
       = Some \<lparr>expiryTs = None, season = 1, episode = 2, seekTime = 2\<rparr>
   \<and> frameStateAt (generateFrame exampleConfig exampleGenEnv 0)
        (returnedAt (generateFrame exampleConfig exampleGenEnv 0)) Map.empty ''0a1b''
       = Some \<lparr>expiryTs = None\<rparr>"
proof -
  let ?g = "generateFrame exampleConfig exampleGenEnv 0"
  have u: "uuid exampleGenEnv = ''0a1b''" by (simp add: exampleGenEnv_def)
  have frame: "outcome (frame ?g)
       = Inr \<lparr>chosenEpisode = \<lparr>season_number = 1, episode_number = 2, filename = ''s01e02.mkv''\<rparr>,
              chosenSeekTime = 2\<rparr>"
    unfolding generateFrame_frame by (rule example_outcome)
  from generateFrame_writes_completed [OF example_result, of Map.empty Map.empty]
  obtain random where r: "outcome (frame ?g) = Inr random"
    and a: "answersAt ?g (returnedAt ?g) Map.empty (uuid exampleGenEnv)
              = Some \<lparr>expiryTs = None, season = season_number (chosenEpisode random),
                      episode = episode_number (chosenEpisode random),
                      seekTime = chosenSeekTime random\<rparr>"
    and f: "frameStateAt ?g (returnedAt ?g) Map.empty (uuid exampleGenEnv) = Some \<lparr>expiryTs = None\<rparr>"
    by blast
  from r frame have "random
       = \<lparr>chosenEpisode = \<lparr>season_number = 1, episode_number = 2, filename = ''s01e02.mkv''\<rparr>,
          chosenSeekTime = 2\<rparr>"
    by simp
  with a f u example_result show ?thesis by simp
qed

text \<open>
  The statement that the FileState write has completed before ffmpeg is invoked fails:
  \<open>setItem\<close> is called and not awaited, and ffmpeg is invoked in the same synchronous
  run. With a write that takes 5 ms, the record is not in the storage when the first
  extraction starts.
\<close>

theorem generateFrame_fileState_not_completed_counterexample:
  "\<not> settledAt (storeImageIdP (generateFrame exampleConfig exampleGenEnv 0))
       \<le> issuedAt (firstExtraction (generateFrame exampleConfig exampleGenEnv 0))
   \<and> frameStateAt (generateFrame exampleConfig exampleGenEnv 0)
        (issuedAt (firstExtraction (generateFrame exampleConfig exampleGenEnv 0))) Map.empty ''0a1b''
       = None"
proof -
  obtain more where first:
    "extractions (frame (generateFrame exampleConfig exampleGenEnv 0))
       = start 0 (ffmpegRun exampleGenEnv 0) # more"
    using ffmpegFrame_first [of exampleConfig exampleGenEnv "imagePathForId exampleConfig (uuid exampleGenEnv)" 0]
    unfolding generateFrame_frame by blast
  have "issuedAt (firstExtraction (generateFrame exampleConfig exampleGenEnv 0)) = 0"
    using first by (simp add: firstExtraction_def start_def)
  moreover have "settledAt (storeImageIdP (generateFrame exampleConfig exampleGenEnv 0)) = 5"
    using generateFrame_storeImageIdP [of exampleConfig exampleGenEnv 0]
    by (simp add: start_def exampleGenEnv_def reliable_def)
  ultimately show ?thesis by (simp add: frameStateAt_def)
qed

lemma runCalls_ffmpeg:
  "length ks = length ps \<Longrightarrow>
   map snd (filter (\<lambda>c. isRunFfmpeg (fst c)) (zip (map RunFfmpeg ks) ps @ rest)) 
     = ps @ map snd (filter (\<lambda>c. isRunFfmpeg (fst c)) rest)"
proof -
  assume len: "length ks = length ps"
  have "\<And>c. c \<in> set (zip (map RunFfmpeg ks) ps) \<Longrightarrow> isRunFfmpeg (fst c)"
  proof -
    fix c assume "c \<in> set (zip (map RunFfmpeg ks) ps)"
    then have "fst c \<in> set (map RunFfmpeg ks)" by (metis prod.collapse set_zip_leftD)
    then show "isRunFfmpeg (fst c)" by auto
  qed
  then have "filter (\<lambda>c. isRunFfmpeg (fst c)) (zip (map RunFfmpeg ks) ps) = zip (map RunFfmpeg ks) ps"
    by (simp add: filter_id_conv)
  moreover have "map snd (zip (map RunFfmpeg ks) ps) = ps" using len by simp
  ultimately show ?thesis by simp
qed

lemma runCalls_no_write:
  "list_all (\<lambda>c. fst c \<noteq> SetFileState k v) (zip (map RunFfmpeg ks) ps)"
  unfolding list_all_iff by (auto dest: set_zip_leftD)

lemma generateFrame_issued:
  "\<exists>later. issued (generateFrame cfg env t0)
       = (SetFileState (uuid env) \<lparr>expiryTs = None\<rparr>, storeImageIdP (generateFrame cfg env t0)) # later
     \<and> list_all (\<lambda>c. fst c \<noteq> SetFileState (uuid env) \<lparr>expiryTs = None\<rparr>) later
     \<and> map snd (filter (\<lambda>c. isRunFfmpeg (fst c)) later) = extractions (frame (generateFrame cfg env t0))"
proof (cases "outcome (ffmpegFrame cfg env (imagePathForId cfg (uuid env)) t0)")
  case (Inl e)
  then show ?thesis
    using runCalls_ffmpeg [of "[0..<length (extractions (ffmpegFrame cfg env (imagePathForId cfg (uuid env)) t0))]"
        "extractions (ffmpegFrame cfg env (imagePathForId cfg (uuid env)) t0)" "[]"]
      runCalls_no_write
    by (simp add: generateFrame_def Let_def)
next
  case (Inr random)
  then show ?thesis
    using runCalls_ffmpeg [of "[0..<length (extractions (ffmpegFrame cfg env (imagePathForId cfg (uuid env)) t0))]"
        "extractions (ffmpegFrame cfg env (imagePathForId cfg (uuid env)) t0)"]
      runCalls_no_write
    by (simp add: generateFrame_def Let_def)
qed

lemma generateFrame_extracts:
  "extractions (frame (generateFrame cfg env t0)) \<noteq> []
   \<and> firstExtraction (generateFrame cfg env t0) \<in> set (extractions (frame (generateFrame cfg env t0)))"
  using ffmpegFrame_first [of cfg env "imagePathForId cfg (uuid env)" t0]
  unfolding generateFrame_frame firstExtraction_def by auto

text \<open>
  C6, as amended. In every frame generation the write of the FileState with a \<open>null\<close>
  expiry is the first operation issued, and it is issued once: every invocation of
  ffmpeg (there is at least one) comes after it in the order of issue, and none is
  issued at an earlier time. The write is started, not awaited: its completion is
  awaited at the end, so when \<open>generateFrame\<close> returns an item, the write has settled
  with success.
\<close>

theorem generateFrame_fileState_issued_first:
  "(\<exists>later. issued (generateFrame cfg env t0)
         = (SetFileState (uuid env) \<lparr>expiryTs = None\<rparr>, storeImageIdP (generateFrame cfg env t0))
           # later
       \<and> list_all (\<lambda>c. fst c \<noteq> SetFileState (uuid env) \<lparr>expiryTs = None\<rparr>) later
       \<and> map snd (filter (\<lambda>c. isRunFfmpeg (fst c)) later)
           = extractions (frame (generateFrame cfg env t0)))
   \<and> extractions (frame (generateFrame cfg env t0)) \<noteq> []
   \<and> firstExtraction (generateFrame cfg env t0)
       \<in> set (extractions (frame (generateFrame cfg env t0)))
   \<and> issuedAt (storeImageIdP (generateFrame cfg env t0))
      \<le> issuedAt (firstExtraction (generateFrame cfg env t0))
   \<and> list_all (\<lambda>p. issuedAt (storeImageIdP (generateFrame cfg env t0)) \<le> issuedAt p)
        (extractions (frame (generateFrame cfg env t0)))
   \<and> fileStateWritten (generateFrame cfg env t0) = (uuid env, \<lparr>expiryTs = None\<rparr>)
   \<and> (\<forall>item. result (generateFrame cfg env t0) = Inr item \<longrightarrow>
        fulfilled (storeImageIdP (generateFrame cfg env t0))
        \<and> settledAt (storeImageIdP (generateFrame cfg env t0))
            \<le> returnedAt (generateFrame cfg env t0))"
proof -
  obtain more where first:
    "extractions (frame (generateFrame cfg env t0)) = start t0 (ffmpegRun env 0) # more"
    using ffmpegFrame_first [of cfg env "imagePathForId cfg (uuid env)" t0]
    unfolding generateFrame_frame by blast
  have a: "issuedAt (storeImageIdP (generateFrame cfg env t0))
      \<le> issuedAt (firstExtraction (generateFrame cfg env t0))"
    using first generateFrame_storeImageIdP [of cfg env t0] by (simp add: firstExtraction_def start_def)
  have b: "list_all (\<lambda>p. issuedAt (storeImageIdP (generateFrame cfg env t0)) \<le> issuedAt p)
        (extractions (frame (generateFrame cfg env t0)))"
    using ffmpegLoop_later [of t0 t0 "[]" cfg env "- 1"] generateFrame_storeImageIdP [of cfg env t0]
    unfolding generateFrame_frame by (simp add: ffmpegFrame_def start_def)
  have c: "\<forall>item. result (generateFrame cfg env t0) = Inr item \<longrightarrow>
        fulfilled (storeImageIdP (generateFrame cfg env t0))
        \<and> settledAt (storeImageIdP (generateFrame cfg env t0))
            \<le> returnedAt (generateFrame cfg env t0)"
    using generateFrame_success [of cfg env t0] by blast
  show ?thesis
    using generateFrame_issued [of cfg env t0] generateFrame_extracts [of cfg env t0] a b c
      generateFrame_storeImageIdP [of cfg env t0]
    by simp
qed

theorem generateFrame_fileState_issued_first_witness:
  "hd (issued (generateFrame exampleConfig exampleGenEnv 0))
      = (SetFileState ''0a1b'' \<lparr>expiryTs = None\<rparr>,
         storeImageIdP (generateFrame exampleConfig exampleGenEnv 0))
   \<and> issuedAt (storeImageIdP (generateFrame exampleConfig exampleGenEnv 0))
      \<le> issuedAt (firstExtraction (generateFrame exampleConfig exampleGenEnv 0))
   \<and> fileStateWritten (generateFrame exampleConfig exampleGenEnv 0) = (''0a1b'', \<lparr>expiryTs = None\<rparr>)
   \<and> result (generateFrame exampleConfig exampleGenEnv 0) = Inr (ImageId ''0a1b'')
   \<and> settledAt (storeImageIdP (generateFrame exampleConfig exampleGenEnv 0))
      \<le> returnedAt (generateFrame exampleConfig exampleGenEnv 0)"
proof -
  have u: "uuid exampleGenEnv = ''0a1b''" by (simp add: exampleGenEnv_def)
  show ?thesis
    using example_result u generateFrame_fileState_issued_first [of exampleConfig exampleGenEnv 0]
    by auto
qed

section \<open>Results about the frame endpoint\<close>

text \<open>
  C10. A request whose basename is present (not missing, not empty) and contains a
  slash, a backslash or two dots in a row, or does not end with a dot and the image
  extension, is answered with the error 400, and the handler has passed no path to the
  file system. A request without a basename (missing or empty) is answered with the
  error 404, again with no file system access. Every path the handler ever passes to the
  file system names a file directly inside the frame output directory.
\<close>

theorem handler_rejects_traversal:
  "(\<forall>b. basename req = Some b \<and> b \<noteq> []
        \<and> (CHR ''/'' \<in> set b \<or> CHR 0x5C \<in> set b \<or> sublist ''..'' b
            \<or> \<not> suffix (''.'' @ imageOutputExtension cfg) b)
      \<longrightarrow> handler cfg createReadStream req = \<lparr>response = HttpError 400, accessed = []\<rparr>)
   \<and> (basename req = None \<or> basename req = Some []
      \<longrightarrow> handler cfg createReadStream req = \<lparr>response = HttpError 404, accessed = []\<rparr>)
   \<and> list_all (insideFrameOutputDir cfg) (accessed (handler cfg createReadStream req))"
  by (auto simp: handler_def traversingPathRe_def insideFrameOutputDir_def pathJoin_def Let_def
        split: option.splits opened.splits)

theorem handler_rejects_traversal_witness:
  "handler exampleConfig (\<lambda>_. Opened)
      \<lparr>basename = Some ''../../etc/passwd.webp'', cleanuponload = None, runId = None\<rparr>
     = \<lparr>response = HttpError 400, accessed = []\<rparr>
   \<and> handler exampleConfig (\<lambda>_. Opened)
      \<lparr>basename = Some ''0a1b.png'', cleanuponload = None, runId = None\<rparr>
     = \<lparr>response = HttpError 400, accessed = []\<rparr>
   \<and> handler exampleConfig (\<lambda>_. Opened) \<lparr>basename = None, cleanuponload = None, runId = None\<rparr>
     = \<lparr>response = HttpError 404, accessed = []\<rparr>
   \<and> accessed (handler exampleConfig (\<lambda>_. Opened)
        \<lparr>basename = Some ''0a1b.webp'', cleanuponload = None, runId = None\<rparr>)
     = [''/tmp/frames/0a1b.webp'']
   \<and> insideFrameOutputDir exampleConfig ''/tmp/frames/0a1b.webp''"
proof -
  have ext: "imageOutputExtension exampleConfig = ''webp''" by (simp add: exampleConfig_def)
  have a: "handler exampleConfig (\<lambda>_. Opened)
      \<lparr>basename = Some ''../../etc/passwd.webp'', cleanuponload = None, runId = None\<rparr>
     = \<lparr>response = HttpError 400, accessed = []\<rparr>"
    using handler_rejects_traversal
      [of "\<lparr>basename = Some ''../../etc/passwd.webp'', cleanuponload = None, runId = None\<rparr>"
          exampleConfig "\<lambda>_. Opened"]
    by simp
  have b: "handler exampleConfig (\<lambda>_. Opened)
      \<lparr>basename = Some ''0a1b.png'', cleanuponload = None, runId = None\<rparr>
     = \<lparr>response = HttpError 400, accessed = []\<rparr>"
    using handler_rejects_traversal
      [of "\<lparr>basename = Some ''0a1b.png'', cleanuponload = None, runId = None\<rparr>"
          exampleConfig "\<lambda>_. Opened"]
    by (simp add: ext suffix_to_prefix)
  have c: "handler exampleConfig (\<lambda>_. Opened) \<lparr>basename = None, cleanuponload = None, runId = None\<rparr>
     = \<lparr>response = HttpError 404, accessed = []\<rparr>"
    using handler_rejects_traversal
      [of "\<lparr>basename = None, cleanuponload = None, runId = None\<rparr>" exampleConfig "\<lambda>_. Opened"]
    by simp
  have d: "accessed (handler exampleConfig (\<lambda>_. Opened)
        \<lparr>basename = Some ''0a1b.webp'', cleanuponload = None, runId = None\<rparr>)
     = [''/tmp/frames/0a1b.webp'']"
    by (simp add: handler_def traversingPathRe_def pathJoin_def exampleConfig_def
          suffix_to_prefix sublist_code Let_def)
  have e: "insideFrameOutputDir exampleConfig ''/tmp/frames/0a1b.webp''"
    using handler_rejects_traversal
      [of "\<lparr>basename = Some ''0a1b.webp'', cleanuponload = None, runId = None\<rparr>"
          exampleConfig "\<lambda>_. Opened"]
    unfolding d by simp
  from a b c d e show ?thesis by blast
qed

end
